theory Spec2Isabelle
  imports Main "HOL-Library.AList" "HOL-Library.Log_Nat"
begin

section \<open>Values, errors and dictionaries\<close>

text \<open>
  A shallow embedding of \<^verbatim>\<open>tracktagger.py\<close>. A Python \<^verbatim>\<open>str\<close> is a
  \<^typ>\<open>string\<close>; each \<^typ>\<open>char\<close> stands for one code point (the range U+0000 to
  U+00FF). A \<^verbatim>\<open>pathlib.Path\<close> is the list of its \<^verbatim>\<open>parts\<close>. The values a
  metadata dictionary holds are \<^verbatim>\<open>None\<close>, a \<^verbatim>\<open>str\<close>, an \<^verbatim>\<open>int\<close> or a
  \<^verbatim>\<open>Path\<close>. Dictionaries are association lists in insertion order, without
  duplicate keys: \<^const>\<open>AList.update\<close> is \<^verbatim>\<open>d[k] = v\<close>, \<^const>\<open>AList.delete\<close> is
  \<^verbatim>\<open>del d[k]\<close> and \<^const>\<open>map_of\<close> is the lookup. Every exception the code can raise
  is a value of \<open>error\<close>, and a function that can raise returns \<open>error + 'a\<close>.
\<close>

type_synonym path = "string list"

datatype val = VNone | VStr string | VInt int | VPath path

datatype error =
    ValueError string
  | KeyError string
  | TypeError string
  | IndexError
  | FileNotFoundError string
  | AttributeError string
  | ExtractError path
  | OSError path

type_synonym tags = "(string \<times> val) list"

type_synonym tree = "(val \<times> (val \<times> (int \<times> tags) list) list) list"

definition bind :: "error + 'a \<Rightarrow> ('a \<Rightarrow> error + 'b) \<Rightarrow> error + 'b" where
  "bind m f = (case m of Inl e \<Rightarrow> Inl e | Inr x \<Rightarrow> f x)"

definition getitem :: "tags \<Rightarrow> string \<Rightarrow> error + val" where
  \<comment> \<open>\<^verbatim>\<open>d[k]\<close>, which raises KeyError on a missing key\<close>
  "getitem d k = (case map_of d k of None \<Rightarrow> Inl (KeyError k) | Some v \<Rightarrow> Inr v)"

definition contains :: "('k \<times> 'v) list \<Rightarrow> 'k \<Rightarrow> bool" where
  \<comment> \<open>\<^verbatim>\<open>k in d\<close>\<close>
  "contains d k = (map_of d k \<noteq> None)"

section \<open>Strings\<close>

definition ascii_lower :: string where
  "ascii_lower = ''abcdefghijklmnopqrstuvwxyz''"

definition ascii_upper :: string where
  "ascii_upper = ''ABCDEFGHIJKLMNOPQRSTUVWXYZ''"

definition ascii_digits :: string where
  "ascii_digits = ''0123456789''"

definition is_letter :: "char \<Rightarrow> bool" where
  \<comment> \<open>the character class \<^verbatim>\<open>[a-zA-Z]\<close>\<close>
  "is_letter c = (c \<in> set (ascii_lower @ ascii_upper))"

definition is_digit :: "char \<Rightarrow> bool" where
  \<comment> \<open>the character class \<^verbatim>\<open>[0-9]\<close>\<close>
  "is_digit c = (c \<in> set ascii_digits)"

definition upper_char :: "char \<Rightarrow> char" where
  "upper_char c = (case map_of (zip ascii_lower ascii_upper) c of Some u \<Rightarrow> u | None \<Rightarrow> c)"

definition upper :: "string \<Rightarrow> string" where
  \<comment> \<open>\<^verbatim>\<open>str.upper\<close>, used by the code on matches of \<^verbatim>\<open>[a-zA-Z]+\<close> only\<close>
  "upper s = map upper_char s"

definition lower_char :: "char \<Rightarrow> char" where
  "lower_char c = (case map_of (zip ascii_upper ascii_lower) c of Some u \<Rightarrow> u | None \<Rightarrow> c)"

definition lower :: "string \<Rightarrow> string" where
  \<comment> \<open>\<^verbatim>\<open>str.lower\<close>; the code only compares the result with ASCII literals, and no
      other code point of the modelled range lowers to an ASCII letter\<close>
  "lower s = map lower_char s"

definition isspace :: "char \<Rightarrow> bool" where
  \<comment> \<open>\<^verbatim>\<open>str.isspace\<close> on the modelled range: U+0009 to U+000D, U+001C to U+0020,
      U+0085 and U+00A0\<close>
  "isspace c = (c \<in> set [CHR 0x09, CHR 0x0A, CHR 0x0B, CHR 0x0C, CHR 0x0D,
                          CHR 0x1C, CHR 0x1D, CHR 0x1E, CHR 0x1F, CHR 0x20,
                          CHR 0x85, CHR 0xA0])"

definition lstrip :: "string \<Rightarrow> string" where
  "lstrip s = dropWhile isspace s"

definition rstrip :: "string \<Rightarrow> string" where
  "rstrip s = rev (dropWhile isspace (rev s))"

definition strip :: "string \<Rightarrow> string" where
  "strip s = rstrip (lstrip s)"

definition isdigit :: "string \<Rightarrow> bool" where
  \<comment> \<open>\<^verbatim>\<open>str.isdigit\<close>: non-empty, and every character has the Unicode property Digit;
      on the modelled range these are the ASCII digits and the superscripts U+00B2,
      U+00B3 and U+00B9\<close>
  "isdigit s = (s \<noteq> [] \<and> list_all (\<lambda>c. is_digit c \<or> c \<in> set [CHR 0xB2, CHR 0xB3, CHR 0xB9]) s)"

definition digit_val :: "char \<Rightarrow> int" where
  "digit_val c = (case map_of (zip ascii_digits [0, 1, 2, 3, 4, 5, 6, 7, 8, 9]) c of
                    Some d \<Rightarrow> d | None \<Rightarrow> 0)"

definition int_of_digits :: "string \<Rightarrow> int" where
  \<comment> \<open>\<^verbatim>\<open>int(s)\<close> for a match of \<^verbatim>\<open>[0-9]+\<close> (the interpreter's limit of 4300 digits
      on conversions between \<^verbatim>\<open>int\<close> and \<^verbatim>\<open>str\<close> is not modelled)\<close>
  "int_of_digits s = foldl (\<lambda>a c. 10 * a + digit_val c) 0 s"

definition int_of_isdigit :: "string \<Rightarrow> error + int" where
  \<comment> \<open>\<^verbatim>\<open>int(s)\<close> for a string that passed \<^verbatim>\<open>isdigit\<close>: the superscript digits are
      no decimal digits, and \<^verbatim>\<open>int\<close> raises ValueError on them\<close>
  "int_of_isdigit s =
     (if list_all is_digit s then Inr (int_of_digits s)
      else Inl (ValueError (''invalid literal for int() with base 10: '' @ s)))"

fun str_nat :: "nat \<Rightarrow> string" where
  "str_nat n = (if n < 10 then [ascii_digits ! n] else str_nat (n div 10) @ [ascii_digits ! (n mod 10)])"

declare str_nat.simps [simp del]

definition str_int :: "int \<Rightarrow> string" where
  \<comment> \<open>\<^verbatim>\<open>str(n)\<close> for an int\<close>
  "str_int n = (if n < 0 then CHR ''-'' # str_nat (nat (- n)) else str_nat (nat n))"

definition zfill :: "nat \<Rightarrow> string \<Rightarrow> string" where
  \<comment> \<open>\<^verbatim>\<open>s.zfill(w)\<close>: zeros are inserted after a leading sign\<close>
  "zfill w s =
     (if length s \<ge> w then s
      else case s of
             c # r \<Rightarrow> (if c = CHR ''+'' \<or> c = CHR ''-''
                       then c # replicate (w - length s) CHR ''0'' @ r
                       else replicate (w - length s) CHR ''0'' @ s)
           | [] \<Rightarrow> replicate w CHR ''0'')"

definition replace_slash :: "string \<Rightarrow> string" where
  \<comment> \<open>\<^verbatim>\<open>s.replace('/', '_')\<close>\<close>
  "replace_slash s = map (\<lambda>c. if c = CHR ''/'' then CHR ''_'' else c) s"

section \<open>The manifest grammar\<close>

text \<open>
  \<^verbatim>\<open>TRACKINFO_RE = re.compile(r"([a-zA-Z]+)(?:\[([0-9]+)\])?=(.*)")\<close>, used with
  \<^verbatim>\<open>fullmatch\<close>. The first group is the longest run of letters at the start of the
  line (a shorter run would be followed by a letter, which is neither \<^verbatim>\<open>[\<close> nor
  \<^verbatim>\<open>=\<close>), so the match is unique. The dot does not match a line feed. The result
  is the triple of the groups 1, 2 and 3; group 2 is \<open>None\<close> when the index is absent.
\<close>

definition dot_star :: "string \<Rightarrow> bool" where
  "dot_star s = (CHR 0x0A \<notin> set s)"

definition trackinfo_fullmatch :: "string \<Rightarrow> (string \<times> string option \<times> string) option" where
  "trackinfo_fullmatch line =
     (let k = takeWhile is_letter line; r = dropWhile is_letter line in
      if k = [] then None
      else case r of
             [] \<Rightarrow> None
           | c # r1 \<Rightarrow>
               if c = CHR ''='' then (if dot_star r1 then Some (k, None, r1) else None)
               else if c = CHR ''['' then
                 (let ds = takeWhile is_digit r1; r2 = dropWhile is_digit r1 in
                  if ds = [] then None
                  else case r2 of
                         c1 # c2 # r3 \<Rightarrow>
                           if c1 = CHR '']'' \<and> c2 = CHR ''='' \<and> dot_star r3
                           then Some (k, Some ds, r3) else None
                       | _ \<Rightarrow> None)
               else None)"

definition TRACKINFO_STANDARD_KEYS :: "string list" where
  "TRACKINFO_STANDARD_KEYS =
     [''INPUT'', ''TITLE'', ''ARTIST'', ''LYRICIST'', ''COMPOSER'', ''ARRANGER'', ''ALBUM'',
      ''DISCNUMBER'', ''GENRE'', ''DATE'', ''LABEL'', ''COMMENT'', ''COVER'']"

definition UNKNOWN_ALBUM_NAME :: string where
  "UNKNOWN_ALBUM_NAME = ''UnknownAlbum''"

section \<open>The manifest parser\<close>

text \<open>
  What \<^verbatim>\<open>pathlib\<close> computes depends on the platform and on the file system
  (\<^verbatim>\<open>resolve\<close> follows links), so it is a parameter: for a manifest at \<^verbatim>\<open>path\<close>,
  \<open>is_absolute s\<close> is \<^verbatim>\<open>Path(s).is_absolute()\<close>, \<open>mk_path s\<close> is \<^verbatim>\<open>Path(s)\<close>,
  \<open>resolve_abs s\<close> is \<^verbatim>\<open>Path(s).resolve()\<close>, \<open>resolve_rel s\<close> is
  \<^verbatim>\<open>(path.parent / s).resolve()\<close> and \<open>resolve_in d s\<close> is \<^verbatim>\<open>(d / s).resolve()\<close>.
\<close>

record pathenv =
  is_absolute :: "string \<Rightarrow> bool"
  mk_path :: "string \<Rightarrow> path"
  resolve_abs :: "string \<Rightarrow> path"
  resolve_rel :: "string \<Rightarrow> path"
  resolve_in :: "path \<Rightarrow> string \<Rightarrow> path"

text \<open>
  The state of the loop of \<^verbatim>\<open>parse_trackinfo_meta\<close>: the two dictionaries and the
  lines printed so far.
\<close>

record pstate =
  track_meta :: tree
  global_meta :: tags
  out :: "string list"

definition tree_get :: "tree \<Rightarrow> val \<Rightarrow> val \<Rightarrow> int \<Rightarrow> tags option" where
  \<comment> \<open>the record at \<^verbatim>\<open>track_meta[album][disc][track_num]\<close>, if there is one\<close>
  "tree_get t album disc n =
     (case map_of t album of
        None \<Rightarrow> None
      | Some discs \<Rightarrow> (case map_of discs disc of None \<Rightarrow> None | Some tracks \<Rightarrow> map_of tracks n))"

definition tree_put :: "tree \<Rightarrow> val \<Rightarrow> val \<Rightarrow> int \<Rightarrow> tags \<Rightarrow> tree" where
  \<comment> \<open>the tree after \<^verbatim>\<open>setdefault(album, {}).setdefault(disc, {})\<close> and a store at
      \<^verbatim>\<open>track_num\<close>: a new key goes to the end, a key that exists keeps its place\<close>
  "tree_put t album disc n r =
     (let discs = (case map_of t album of None \<Rightarrow> [] | Some ds \<Rightarrow> ds);
          tracks = (case map_of discs disc of None \<Rightarrow> [] | Some ts \<Rightarrow> ts)
      in AList.update album (AList.update disc (AList.update n r tracks) discs) t)"

definition disc_of_value :: "string \<Rightarrow> error + int" where
  \<comment> \<open>the check and the conversion of a DISCNUMBER value\<close>
  "disc_of_value v =
     (if \<not> isdigit v then Inl (ValueError (''DISCNUMBER ('' @ [CHR 0x27] @ v @ [CHR 0x27] @ '') must be an integer''))
      else int_of_isdigit v)"

definition dict_location :: "tags \<Rightarrow> string \<Rightarrow> string \<Rightarrow> error + (val \<times> val)" where
  \<comment> \<open>the \<^verbatim>\<open>match key\<close> under the comment "Dictionary location"\<close>
  "dict_location g key v =
     (if key = ''ALBUM'' then
        bind (getitem g ''DISCNUMBER'') (\<lambda>disc. Inr (VStr v, disc))
      else if key = ''DISCNUMBER'' then
        bind (getitem g ''ALBUM'') (\<lambda>album.
        bind (disc_of_value v) (\<lambda>disc. Inr (album, VInt disc)))
      else
        bind (getitem g ''ALBUM'') (\<lambda>album.
        bind (getitem g ''DISCNUMBER'') (\<lambda>disc. Inr (album, disc))))"

definition cover_base :: "pathenv \<Rightarrow> val \<Rightarrow> string \<Rightarrow> error + path" where
  \<comment> \<open>\<^verbatim>\<open>(dst_dict['INPUT'] / value).resolve()\<close>. The parser only ever stores a Path
      under INPUT; the other cases are what the operator \<^verbatim>\<open>/\<close> does on them.\<close>
  "cover_base P inp v =
     (case inp of
        VPath d \<Rightarrow> Inr (resolve_in P d v)
      | VStr s \<Rightarrow> Inr (resolve_in P (mk_path P s) v)
      | _ \<Rightarrow> Inl (TypeError ''unsupported operand type(s) for /''))"

definition set_key_value ::
    "pathenv \<Rightarrow> (path \<times> path) list \<Rightarrow> string \<Rightarrow> string \<Rightarrow> tags \<Rightarrow> error + tags" where
  \<comment> \<open>the code under the comment "Set key-value", on the selected dictionary\<close>
  "set_key_value P input_map key v dst =
     (if v = [] \<and> contains dst key then Inr (AList.delete key dst)
      else if key = ''INPUT'' then
        (case map_of input_map (resolve_rel P v) of
           None \<Rightarrow> Inl (KeyError v)
         | Some d \<Rightarrow> Inr (AList.update ''INPUT'' (VPath d) dst))
      else if key = ''COVER'' then
        (if is_absolute P v then Inr (AList.update ''COVER'' (VPath (mk_path P v)) dst)
         else if contains dst ''INPUT'' then
           bind (getitem dst ''INPUT'') (\<lambda>inp.
           bind (cover_base P inp v) (\<lambda>c. Inr (AList.update ''COVER'' (VPath c) dst)))
         else Inr (AList.update ''COVER'' (VPath (resolve_rel P v)) dst))
      else if key = ''DISCNUMBER'' then
        bind (disc_of_value v) (\<lambda>n. Inr (AList.update ''DISCNUMBER'' (VInt n) dst))
      else Inr (AList.update key (VStr v) dst))"

definition warn_key :: "string \<Rightarrow> pstate \<Rightarrow> pstate" where
  "warn_key key st =
     (if key \<in> set TRACKINFO_STANDARD_KEYS then st
      else st\<lparr>out := out st @ [''WARNING: '' @ [CHR 0x27] @ key @ [CHR 0x27] @ '' is not a standard key.'']\<rparr>)"

definition select_track_dict :: "pstate \<Rightarrow> val \<Rightarrow> val \<Rightarrow> int \<Rightarrow> tags" where
  \<comment> \<open>the dictionary that the chain of \<^verbatim>\<open>setdefault\<close> returns: the record of the
      track if it exists, else a copy of the global dictionary with TRACKNUMBER\<close>
  "select_track_dict st album disc track_num =
     (case tree_get (track_meta st) album disc track_num of
        Some r \<Rightarrow> r
      | None \<Rightarrow> AList.update ''TRACKNUMBER'' (VInt track_num) (global_meta st))"

definition process_line ::
    "pathenv \<Rightarrow> (path \<times> path) list \<Rightarrow> pstate \<Rightarrow> string \<Rightarrow> error + pstate" where
  \<comment> \<open>one iteration of \<^verbatim>\<open>for line in file\<close>\<close>
  "process_line P input_map st raw =
     (let line = rstrip raw in
      if line = [] then Inr st
      else case trackinfo_fullmatch line of
        None \<Rightarrow> Inl (ValueError ([CHR 0x27] @ line @ [CHR 0x27] @ '' is not a valid trackinfo line''))
      | Some (k, idx, v0) \<Rightarrow>
          let key = upper k; v = strip v0; st1 = warn_key key st in
          (case idx of
             Some ds \<Rightarrow>
               let track_num = int_of_digits ds in
               bind (dict_location (global_meta st1) key v) (\<lambda>(album, disc).
                 let dst = select_track_dict st1 album disc track_num
                 in bind (set_key_value P input_map key v dst) (\<lambda>dst'.
                      Inr (st1\<lparr>track_meta := tree_put (track_meta st1) album disc track_num dst'\<rparr>)))
           | None \<Rightarrow>
               bind (set_key_value P input_map key v (global_meta st1)) (\<lambda>g.
                 Inr (st1\<lparr>global_meta := g\<rparr>))))"

fun run_lines ::
    "pathenv \<Rightarrow> (path \<times> path) list \<Rightarrow> pstate \<Rightarrow> string list \<Rightarrow> error + pstate" where
  "run_lines P input_map st [] = Inr st"
| "run_lines P input_map st (l # ls) =
     bind (process_line P input_map st l) (\<lambda>st'. run_lines P input_map st' ls)"

definition init_state :: pstate where
  "init_state = \<lparr>track_meta = [], global_meta = [(''ALBUM'', VNone), (''DISCNUMBER'', VNone)], out = []\<rparr>"

definition parse_trackinfo_meta ::
    "pathenv \<Rightarrow> string list \<Rightarrow> (path \<times> path) list \<Rightarrow> error + tree" where
  \<comment> \<open>the lines of the manifest are the second argument\<close>
  "parse_trackinfo_meta P lines input_map =
     bind (run_lines P input_map init_state lines) (\<lambda>st. Inr (track_meta st))"

section \<open>Padding\<close>

definition floor_log10_plus_1 :: "int \<Rightarrow> error + nat" where
  \<comment> \<open>\<^verbatim>\<open>math.floor(math.log10(n)) + 1\<close>, the logarithm taken over the reals
      (\<^const>\<open>floorlog\<close> is \<open>nat \<lfloor>log b a\<rfloor> + 1\<close> for \<open>a > 0\<close>); \<^verbatim>\<open>math.log10\<close>
      raises ValueError on an argument that is not positive\<close>
  "floor_log10_plus_1 n =
     (if n \<le> 0 then Inl (ValueError ''math domain error'') else Inr (floorlog 10 (nat n)))"

definition py_max :: "int list \<Rightarrow> error + int" where
  \<comment> \<open>\<^verbatim>\<open>max(xs)\<close>, which raises ValueError on an empty sequence\<close>
  "py_max xs =
     (case xs of [] \<Rightarrow> Inl (ValueError ''max() iterable argument is empty'')
      | x # r \<Rightarrow> Inr (foldl max x r))"

definition int_keys :: "val list \<Rightarrow> error + int list" where
  \<comment> \<open>the disc keys as numbers: \<^verbatim>\<open>max\<close> and \<^verbatim>\<open>math.log10\<close> raise TypeError on
      anything else (the parser only files tracks under \<^verbatim>\<open>None\<close> or an int)\<close>
  "int_keys vs =
     (if list_all (\<lambda>v. case v of VInt _ \<Rightarrow> True | _ \<Rightarrow> False) vs
      then Inr (map (\<lambda>v. case v of VInt n \<Rightarrow> n | _ \<Rightarrow> 0) vs)
      else Inl (TypeError ''must be real number''))"

definition disc_padding_of :: "(val \<times> (int \<times> tags) list) list \<Rightarrow> error + nat" where
  "disc_padding_of discs =
     (let discs_no_none = filter (\<lambda>v. v \<noteq> VNone) (map fst discs) in
      if length discs_no_none > 0
      then bind (int_keys discs_no_none) (\<lambda>ns. bind (py_max ns) floor_log10_plus_1)
      else Inr 0)"

fun track_padding_of ::
    "(val \<times> nat) list \<Rightarrow> (val \<times> (int \<times> tags) list) list \<Rightarrow> error + (val \<times> nat) list" where
  "track_padding_of acc [] = Inr acc"
| "track_padding_of acc ((disc, tracks) # rest) =
     bind (py_max (map fst tracks)) (\<lambda>m.
     bind (floor_log10_plus_1 m) (\<lambda>w. track_padding_of (AList.update disc w acc) rest))"

fun calc_padding_loop ::
    "(val \<times> nat) list \<times> (val \<times> (val \<times> nat) list) list \<Rightarrow> tree \<Rightarrow>
     error + ((val \<times> nat) list \<times> (val \<times> (val \<times> nat) list) list)" where
  "calc_padding_loop (disc_ret, track_ret) [] = Inr (disc_ret, track_ret)"
| "calc_padding_loop (disc_ret, track_ret) ((album, discs) # rest) =
     bind (disc_padding_of discs) (\<lambda>dw.
     bind (track_padding_of [] discs) (\<lambda>tw.
       calc_padding_loop (AList.update album dw disc_ret, AList.update album tw track_ret) rest))"

definition calc_padding ::
    "tree \<Rightarrow> error + ((val \<times> nat) list \<times> (val \<times> (val \<times> nat) list) list)" where
  "calc_padding info = calc_padding_loop ([], []) info"

section \<open>Track identifiers and the track mapper\<close>

definition str_path :: "path \<Rightarrow> string" where
  \<comment> \<open>\<^verbatim>\<open>str(p)\<close> of a POSIX path, from its parts\<close>
  "str_path p =
     (case p of
        [] \<Rightarrow> ''.''
      | h # t \<Rightarrow>
          if h = ''/'' then ''/'' @ (case t of [] \<Rightarrow> [] | a # r \<Rightarrow> concat (a # map (\<lambda>s. ''/'' @ s) r))
          else concat (h # map (\<lambda>s. ''/'' @ s) t))"

definition str_val :: "val \<Rightarrow> string" where
  \<comment> \<open>\<^verbatim>\<open>str(v)\<close>\<close>
  "str_val v = (case v of VNone \<Rightarrow> ''None'' | VStr s \<Rightarrow> s | VInt n \<Rightarrow> str_int n | VPath p \<Rightarrow> str_path p)"

definition truthy :: "val \<Rightarrow> bool" where
  \<comment> \<open>the truth value of \<^verbatim>\<open>if v:\<close>\<close>
  "truthy v = (case v of VNone \<Rightarrow> False | VStr s \<Rightarrow> s \<noteq> [] | VInt n \<Rightarrow> n \<noteq> 0 | VPath p \<Rightarrow> True)"

definition format_0d :: "nat \<Rightarrow> int \<Rightarrow> string" where
  \<comment> \<open>\<^verbatim>\<open>f"{n:0{w}d}"\<close>: sign-aware zero padding to width \<open>w\<close>\<close>
  "format_0d w n = zfill w (str_int n)"

definition track_id_to_string :: "val \<Rightarrow> val \<Rightarrow> int \<Rightarrow> nat \<Rightarrow> nat \<Rightarrow> error + string" where
  \<comment> \<open>the format code \<^verbatim>\<open>d\<close> raises on a disc that is no int\<close>
  "track_id_to_string album disc num disc_padding track_padding =
     (let album_str = (if truthy album then [CHR 0x22] @ str_val album @ [CHR 0x22] @ '':'' else [])
      in bind (if truthy disc
               then (case disc of
                       VInt d \<Rightarrow> Inr (format_0d disc_padding d @ ''.'')
                     | _ \<Rightarrow> Inl (ValueError ''Unknown format code d''))
               else Inr []) (\<lambda>disc_str.
           Inr (album_str @ ''#'' @ disc_str @ format_0d track_padding num)))"

text \<open>
  \<^verbatim>\<open>TRACK_INPUT_RE = re.compile(r".*?([0-9]+).*\.flac", re.I)\<close>, used with
  \<^verbatim>\<open>fullmatch\<close>. No part of the pattern matches a line feed, so a name with one does
  not match. Otherwise the name matches when it ends in \<^verbatim>\<open>.flac\<close> (in any case) and
  has a digit; the digits are then before that ending. The lazy prefix stops at the
  first digit and the group takes the whole run of digits there: this first attempt
  succeeds whenever any does. The result is group 1.
\<close>

definition track_input_fullmatch :: "string \<Rightarrow> string option" where
  "track_input_fullmatch name =
     (let r = dropWhile (\<lambda>c. \<not> is_digit c) name;
          ds = takeWhile is_digit r;
          rest = dropWhile is_digit r
      in if ds \<noteq> [] \<and> dot_star name \<and> length rest \<ge> 5
            \<and> lower (drop (length rest - 5) rest) = ''.flac''
         then Some ds else None)"

definition is_track_file :: "int \<Rightarrow> string \<Rightarrow> bool" where
  \<comment> \<open>\<^verbatim>\<open>m and int(m.group(1)) == num\<close>\<close>
  "is_track_file num name =
     (case track_input_fullmatch name of None \<Rightarrow> False | Some ds \<Rightarrow> int_of_digits ds = num)"

text \<open>
  The file system and the external programs are parameters. \<open>is_file\<close>, \<open>is_dir\<close>
  and \<open>suffix\<close> are the methods of \<^verbatim>\<open>Path\<close>; \<open>listdir d\<close> is the names of the entries
  of \<^verbatim>\<open>d.iterdir()\<close> in the order of enumeration, or the OSError it raises;
  \<open>mkdtemp a\<close> is the container directory that \<^verbatim>\<open>tempfile.mkdtemp\<close> creates for the
  archive \<open>a\<close> (every archive is expanded once in a run); \<open>extractor fmt a c\<close> tells
  whether the extractor of the format \<open>fmt\<close> succeeds on the archive \<open>a\<close> into the
  container \<open>c\<close>; \<open>cover_file c\<close> is the temporary file created for the cover \<open>c\<close>
  and \<open>metaflac_export c\<close> tells whether \<^verbatim>\<open>metaflac\<close> exits with status zero on it.
\<close>

record fsenv =
  is_file :: "path \<Rightarrow> bool"
  is_dir :: "path \<Rightarrow> bool"
  suffix :: "path \<Rightarrow> string"
  listdir :: "path \<Rightarrow> error + string list"
  mkdtemp :: "path \<Rightarrow> path"
  extractor :: "string \<Rightarrow> path \<Rightarrow> path \<Rightarrow> bool"
  cover_file :: "path \<Rightarrow> path"
  metaflac_export :: "path \<Rightarrow> bool"

definition as_path :: "string \<Rightarrow> val \<Rightarrow> error + path" where
  \<comment> \<open>a method of \<^verbatim>\<open>Path\<close> called on a value: AttributeError when it is no Path\<close>
  "as_path attr v = (case v of VPath p \<Rightarrow> Inr p | _ \<Rightarrow> Inl (AttributeError attr))"

fun map_tracks_loop ::
    "fsenv \<Rightarrow> val \<Rightarrow> val \<Rightarrow> (int \<times> string) list \<Rightarrow> (int \<times> tags) list \<Rightarrow>
     error + (int \<times> string) list" where
  "map_tracks_loop F album disc acc [] = Inr acc"
| "map_tracks_loop F album disc acc ((num, tgs) # rest) =
     bind (getitem tgs ''INPUT'') (\<lambda>inp.
     bind (as_path ''iterdir'' inp) (\<lambda>d.
     bind (listdir F d) (\<lambda>names.
       case find (is_track_file num) names of
         Some f \<Rightarrow> map_tracks_loop F album disc (AList.update num f acc) rest
       | None \<Rightarrow>
           bind (track_id_to_string album disc num 0 0) (\<lambda>s.
             Inl (FileNotFoundError (''Could not find file for track '' @ s))))))"

fun map_tracks_discs ::
    "fsenv \<Rightarrow> val \<Rightarrow> (val \<times> (int \<times> string) list) list \<Rightarrow> (val \<times> (int \<times> tags) list) list \<Rightarrow>
     error + (val \<times> (int \<times> string) list) list" where
  "map_tracks_discs F album acc [] = Inr acc"
| "map_tracks_discs F album acc ((disc, tracks) # rest) =
     bind (map_tracks_loop F album disc [] tracks) (\<lambda>m.
       map_tracks_discs F album (AList.update disc m acc) rest)"

fun map_tracks_albums ::
    "fsenv \<Rightarrow> (val \<times> (val \<times> (int \<times> string) list) list) list \<Rightarrow> tree \<Rightarrow>
     error + (val \<times> (val \<times> (int \<times> string) list) list) list" where
  "map_tracks_albums F acc [] = Inr acc"
| "map_tracks_albums F acc ((album, discs) # rest) =
     bind (map_tracks_discs F album [] discs) (\<lambda>m.
       map_tracks_albums F (AList.update album m acc) rest)"

definition map_tracks ::
    "fsenv \<Rightarrow> tree \<Rightarrow> error + (val \<times> (val \<times> (int \<times> string) list) list) list" where
  "map_tracks F info = map_tracks_albums F [] info"

section \<open>Covers\<close>

text \<open>
  \<^verbatim>\<open>map_covers\<close> returns the cover map; the lines it prints on the standard error
  stream are the second component of the result. A Python set is a list without
  duplicates, in the order of first insertion.
\<close>

definition set_add :: "'a \<Rightarrow> 'a list \<Rightarrow> 'a list" where
  "set_add x xs = (if x \<in> set xs then xs else xs @ [x])"

fun collect_covers ::
    "fsenv \<Rightarrow> (path \<times> path) list \<times> path list \<Rightarrow> tags list \<Rightarrow>
     error + ((path \<times> path) list \<times> path list)" where
  "collect_covers F (ret, extract_cover_set) [] = Inr (ret, extract_cover_set)"
| "collect_covers F (ret, extract_cover_set) (tgs # rest) =
     (if contains tgs ''COVER'' then
        bind (getitem tgs ''COVER'') (\<lambda>c.
        bind (as_path ''suffix'' c) (\<lambda>cover.
          if lower (suffix F cover) = ''.flac''
          then collect_covers F (ret, set_add cover extract_cover_set) rest
          else collect_covers F (AList.update cover cover ret, extract_cover_set) rest))
      else collect_covers F (ret, extract_cover_set) rest)"

fun extract_covers ::
    "fsenv \<Rightarrow> (path \<times> path) list \<times> string list \<Rightarrow> path list \<Rightarrow>
     (path \<times> path) list \<times> string list" where
  "extract_covers F (ret, err) [] = (ret, err)"
| "extract_covers F (ret, err) (flac_cover # rest) =
     (let err' = (if metaflac_export F flac_cover then err
                  else err @ [''ERROR: Could not extract cover art from '' @ [CHR 0x27]
                              @ str_path flac_cover @ [CHR 0x27] @ ''!''])
      in extract_covers F (AList.update flac_cover (cover_file F flac_cover) ret, err') rest)"

definition all_tags :: "tree \<Rightarrow> tags list" where
  \<comment> \<open>the records in the order of the three nested loops over \<^verbatim>\<open>values()\<close>\<close>
  "all_tags info = concat (map (\<lambda>(album, discs). concat (map (\<lambda>(disc, tracks). map snd tracks) discs)) info)"

definition map_covers :: "fsenv \<Rightarrow> tree \<Rightarrow> error + ((path \<times> path) list \<times> string list)" where
  "map_covers F info =
     bind (collect_covers F ([], []) (all_tags info)) (\<lambda>(ret, extract_cover_set).
       Inr (extract_covers F (ret, []) extract_cover_set))"

section \<open>Output paths\<close>

definition as_str :: "val \<Rightarrow> error + string" where
  \<comment> \<open>a \<^verbatim>\<open>str\<close> operand of \<^verbatim>\<open>+\<close>: TypeError on anything else\<close>
  "as_str v = (case v of VStr s \<Rightarrow> Inr s | _ \<Rightarrow> Inl (TypeError ''can only concatenate str''))"

definition album_dir_of :: "val \<Rightarrow> error + string" where
  "album_dir_of a =
     (case a of
        VNone \<Rightarrow> Inr UNKNOWN_ALBUM_NAME
      | VStr s \<Rightarrow> Inr (replace_slash s)
      | _ \<Rightarrow> Inl (AttributeError ''replace''))"

definition gen_output_name :: "tags \<Rightarrow> nat \<Rightarrow> nat \<Rightarrow> error + (string \<times> string)" where
  \<comment> \<open>\<^verbatim>\<open>album_dir\<close> and the argument of \<^verbatim>\<open>truncate_filename\<close>, as
      \<^verbatim>\<open>gen_output_path\<close> computes them\<close>
  "gen_output_name tgs disc_padding track_padding =
     bind (getitem tgs ''ALBUM'') (\<lambda>album.
     bind (album_dir_of album) (\<lambda>album_dir.
     bind (getitem tgs ''DISCNUMBER'') (\<lambda>disc.
       let f1 = (if disc \<noteq> VNone then zfill disc_padding (str_val disc) @ ''.'' else []) in
       bind (getitem tgs ''TRACKNUMBER'') (\<lambda>num.
         let f2 = f1 @ zfill track_padding (str_val num) in
         bind (if contains tgs ''TITLE'' \<and> contains tgs ''ARTIST'' then
                 bind (getitem tgs ''ARTIST'') (\<lambda>a. bind (as_str a) (\<lambda>artist.
                 bind (getitem tgs ''TITLE'') (\<lambda>t. bind (as_str t) (\<lambda>title.
                   Inr (f2 @ ''. '' @ artist @ '' - '' @ title)))))
               else if contains tgs ''TITLE'' then
                 bind (getitem tgs ''TITLE'') (\<lambda>t. bind (as_str t) (\<lambda>title.
                   Inr (f2 @ ''. '' @ title)))
               else if contains tgs ''ARTIST'' then
                 bind (getitem tgs ''ARTIST'') (\<lambda>a. bind (as_str a) (\<lambda>artist.
                   Inr (f2 @ ''. '' @ artist)))
               else Inr f2) (\<lambda>filename.
           Inr (album_dir, replace_slash filename @ ''.flac''))))))"

definition gen_output_path ::
    "(string \<Rightarrow> error + 'p) \<Rightarrow> tags \<Rightarrow> path \<Rightarrow> nat \<Rightarrow> nat \<Rightarrow> error + (path \<times> string \<times> 'p)" where
  \<comment> \<open>the three operands of \<^verbatim>\<open>out_dir / album_dir / truncate_filename(...)\<close>; the
      filename sanitizer is the first parameter\<close>
  "gen_output_path truncate_filename tgs out_dir disc_padding track_padding =
     bind (gen_output_name tgs disc_padding track_padding) (\<lambda>(album_dir, name).
     bind (truncate_filename name) (\<lambda>t. Inr (out_dir, album_dir, t)))"

section \<open>Archives\<close>

definition ARCHIVE_EXTS :: "string list" where
  "ARCHIVE_EXTS = [''.zip'', ''.rar'', ''.7z'']"

definition expand_archive :: "fsenv \<Rightarrow> path \<Rightarrow> error + path" where
  "expand_archive F p =
     (let sfx = lower (suffix F p) in
      if sfx = ''.zip'' \<or> sfx = ''.rar'' \<or> sfx = ''.7z'' then
        (let container_dir = mkdtemp F p in
         if extractor F sfx p container_dir then Inr container_dir else Inl (ExtractError p))
      else Inl (TypeError (''Unknown archive format '' @ [CHR 0x27] @ suffix F p @ [CHR 0x27])))"

text \<open>
  The first loop of \<^verbatim>\<open>expand_archives_in_tree\<close> groups the paths by their first
  part; \<^verbatim>\<open>path.parts[0]\<close> raises IndexError on a path without parts.
\<close>

definition add_node :: "string \<Rightarrow> path \<Rightarrow> (string \<times> path list) list \<Rightarrow> (string \<times> path list) list" where
  \<comment> \<open>\<^verbatim>\<open>nodes.setdefault(head, set()).add(tail)\<close>\<close>
  "add_node h t nodes =
     (case map_of nodes h of
        None \<Rightarrow> nodes @ [(h, [t])]
      | Some ts \<Rightarrow> AList.update h (set_add t ts) nodes)"

fun group_nodes :: "(string \<times> path list) list \<Rightarrow> path list \<Rightarrow> error + (string \<times> path list) list" where
  "group_nodes nodes [] = Inr nodes"
| "group_nodes nodes ([] # ps) = Inl IndexError"
| "group_nodes nodes ((h # t) # ps) = group_nodes (add_node h t nodes) ps"

text \<open>
  The second loop decides, for each first part, the real location of
  \<^verbatim>\<open>stub = parent / head\<close>. A node of \<^verbatim>\<open>new_nodes\<close> is kept with its head, which
  is \<^verbatim>\<open>stub.parts[-1]\<close>. The archives expanded are logged.
\<close>

type_synonym new_node = "string \<times> path \<times> path \<times> path list"

definition real_path_of :: "fsenv \<Rightarrow> path \<Rightarrow> error + (path \<times> path list)" where
  "real_path_of F stub =
     (if is_file F stub \<and> lower (suffix F stub) \<in> set ARCHIVE_EXTS then
        bind (expand_archive F stub) (\<lambda>archive_path.
        bind (listdir F archive_path) (\<lambda>names.
          let archive_files = map (\<lambda>n. archive_path @ [n]) names in
          if length archive_files = 1 \<and> is_dir F (hd archive_files)
          then Inr (hd archive_files, [stub])
          else Inr (archive_path, [stub])))
      else Inr (stub, []))"

fun expand_nodes ::
    "fsenv \<Rightarrow> path \<Rightarrow> (string \<times> path list) list \<Rightarrow> error + (new_node list \<times> path list)" where
  "expand_nodes F parent [] = Inr ([], [])"
| "expand_nodes F parent ((h, tails) # rest) =
     bind (real_path_of F (parent @ [h])) (\<lambda>(real_path, lg).
     bind (expand_nodes F parent rest) (\<lambda>(nn, lg').
       Inr ((h, parent @ [h], real_path, tails) # nn, lg @ lg')))"

text \<open>
  The third loop fills \<^verbatim>\<open>ret\<close>; the recursive call of each node is its second
  component here.
\<close>

fun fill_ret ::
    "(path \<times> path) list \<Rightarrow> path list \<Rightarrow>
     (new_node \<times> (error + ((path \<times> path) list \<times> path list))) list \<Rightarrow>
     error + ((path \<times> path) list \<times> path list)" where
  "fill_ret ret lg [] = Inr (ret, lg)"
| "fill_ret ret lg (((h, stub, real_path, tails), sub) # rest) =
     (let ret1 = (if [] \<in> set tails then AList.update [h] real_path ret else ret) in
      case sub of
        Inl e \<Rightarrow> Inl e
      | Inr (m, lg') \<Rightarrow>
          fill_ret (foldl (\<lambda>r (base, mapped). AList.update (h # base) mapped r) ret1 m)
            (lg @ lg') rest)"

definition node_tails :: "new_node \<Rightarrow> path list" where
  \<comment> \<open>the tails after \<^verbatim>\<open>tails.remove(Path())\<close>\<close>
  "node_tails nd = removeAll [] (snd (snd (snd nd)))"

definition node_real :: "new_node \<Rightarrow> path" where
  "node_real nd = fst (snd (snd nd))"

text \<open>
  The recursion of \<^verbatim>\<open>expand_archives_in_tree\<close> goes through the tails of each node,
  which are shorter than the paths they come from: the function terminates because
  the length of the longest path decreases.
\<close>

lemma set_update_subset: "x \<in> set (AList.update k v al) \<Longrightarrow> x = (k, v) \<or> x \<in> set al"
  by (induction al) (auto split: if_splits)

lemma add_node_mem:
  "(h', ts) \<in> set (add_node h t nodes) \<Longrightarrow> t' \<in> set ts \<Longrightarrow>
     (h' = h \<and> t' = t) \<or> (\<exists>ts0. (h', ts0) \<in> set nodes \<and> t' \<in> set ts0)"
  by (auto simp: add_node_def set_add_def split: option.splits if_splits
           dest!: set_update_subset dest: map_of_SomeD)

lemma group_nodes_mem:
  "group_nodes nodes0 paths = Inr nodes \<Longrightarrow> (h, ts) \<in> set nodes \<Longrightarrow> t \<in> set ts \<Longrightarrow>
     h # t \<in> set paths \<or> (\<exists>ts0. (h, ts0) \<in> set nodes0 \<and> t \<in> set ts0)"
proof (induction nodes0 paths rule: group_nodes.induct)
  case (1 nodes)
  then show ?case by auto
next
  case (2 nodes ps)
  then show ?case by simp
next
  case (3 nodes h' t' ps)
  from 3 have "h # t \<in> set ps \<or> (\<exists>ts0. (h, ts0) \<in> set (add_node h' t' nodes) \<and> t \<in> set ts0)"
    by simp
  then show ?case
    by (auto dest: add_node_mem)
qed

lemma expand_nodes_mem:
  "expand_nodes F parent nodes = Inr (nn, lg) \<Longrightarrow> nd \<in> set nn \<Longrightarrow>
     \<exists>h tails r l. nd = (h, parent @ [h], r, tails) \<and> (h, tails) \<in> set nodes
        \<and> real_path_of F (parent @ [h]) = Inr (r, l)"
proof (induction nodes arbitrary: nn lg)
  case Nil
  then show ?case by simp
next
  case (Cons a nodes)
  obtain h tails where a: "a = (h, tails)" by (cases a)
  from Cons.prems(1) a obtain r l nn' lg' where
    r: "real_path_of F (parent @ [h]) = Inr (r, l)" and
    e: "expand_nodes F parent nodes = Inr (nn', lg')" and
    nn: "nn = (h, parent @ [h], r, tails) # nn'"
    by (auto simp: bind_def split: sum.splits)
  show ?case
  proof (cases "nd = (h, parent @ [h], r, tails)")
    case True
    then show ?thesis using r a by auto
  next
    case False
    with Cons.prems(2) nn have "nd \<in> set nn'" by simp
    from Cons.IH[OF e this] show ?thesis using a by auto
  qed
qed

definition depth :: "path list \<Rightarrow> nat" where
  "depth paths = Max (insert 0 (length ` set paths))"

lemma depth_less:
  assumes "ts \<noteq> []" and "\<forall>t\<in>set ts. \<exists>p\<in>set paths. length t < length p"
  shows "depth ts < depth paths"
proof -
  define m where "m = Max (insert 0 (length ` set ts))"
  have "m \<in> insert 0 (length ` set ts)"
    unfolding m_def by (rule Max_in) auto
  then have "\<exists>t\<in>set ts. m \<le> length t"
  proof
    assume "m = 0"
    moreover from assms(1) obtain t where "t \<in> set ts" by (cases ts) auto
    ultimately show ?thesis by auto
  next
    assume "m \<in> length ` set ts"
    then show ?thesis by auto
  qed
  then obtain t where t: "t \<in> set ts" "m \<le> length t"
    by blast
  from assms(2) t(1) obtain p where p: "p \<in> set paths" "length t < length p" by blast
  have "length p \<le> Max (insert 0 (length ` set paths))"
    by (rule Max_ge) (use p in auto)
  with t p show ?thesis unfolding depth_def m_def[symmetric] by linarith
qed

function expand_archives_in_tree ::
    "fsenv \<Rightarrow> path list \<Rightarrow> path \<Rightarrow> error + ((path \<times> path) list \<times> path list)" where
  "expand_archives_in_tree F paths parent =
     (case group_nodes [] paths of
        Inl e \<Rightarrow> Inl e
      | Inr nodes \<Rightarrow>
          (case expand_nodes F parent nodes of
             Inl e \<Rightarrow> Inl e
           | Inr (new_nodes, lg) \<Rightarrow>
               fill_ret [] lg
                 (map (\<lambda>nd. (nd, if node_tails nd \<noteq> []
                                  then expand_archives_in_tree F (node_tails nd) (node_real nd)
                                  else Inr ([], [])))
                    new_nodes)))"
  by pat_completeness auto
termination
proof (relation "measure (\<lambda>(F, paths, parent). depth paths)")
  show "wf (measure (\<lambda>(F, paths, parent). depth paths))" by simp
next
  fix F :: fsenv and paths :: "path list" and parent nodes x2 new_nodes lg nd
  assume g: "group_nodes [] paths = Inr nodes"
    and e: "expand_nodes F parent nodes = Inr x2" and x2: "(new_nodes, lg) = x2"
    and nd: "nd \<in> set new_nodes" and ne: "node_tails nd \<noteq> []"
  from e x2 have e': "expand_nodes F parent nodes = Inr (new_nodes, lg)" by simp
  from expand_nodes_mem[OF e' nd] obtain h tails r l where
    ndeq: "nd = (h, parent @ [h], r, tails)" and mem: "(h, tails) \<in> set nodes" by blast
  have "\<forall>t\<in>set (node_tails nd). \<exists>p\<in>set paths. length t < length p"
  proof
    fix t assume "t \<in> set (node_tails nd)"
    then have "t \<in> set tails" by (simp add: node_tails_def ndeq)
    from group_nodes_mem[OF g mem this] have "h # t \<in> set paths" by simp
    then show "\<exists>p\<in>set paths. length t < length p" by force
  qed
  from depth_less[OF ne this]
  show "((F, node_tails nd, node_real nd), (F, paths, parent)) \<in> measure (\<lambda>(F, paths, parent). depth paths)"
    by simp
qed

declare expand_archives_in_tree.simps [simp del]

section \<open>Resolving the inputs of a manifest, and the order of the run\<close>





section \<open>Definitions used to state the properties\<close>

text \<open>
  The file name as the specification words it: the disc number padded with zeros and
  a dot when there is a disc, the track number padded with zeros, then the artist and
  the title, with every slash replaced and the extension added.
\<close>

definition zero_pad :: "nat \<Rightarrow> nat \<Rightarrow> string" where
  "zero_pad w n = replicate (w - length (str_nat n)) CHR ''0'' @ str_nat n"

definition spec_filename ::
    "nat \<Rightarrow> nat \<Rightarrow> nat option \<Rightarrow> nat \<Rightarrow> string option \<Rightarrow> string option \<Rightarrow> string" where
  "spec_filename disc_padding track_padding disc num title artist =
     replace_slash
       ((case disc of Some d \<Rightarrow> zero_pad disc_padding d @ ''.'' | None \<Rightarrow> [])
        @ zero_pad track_padding num
        @ (case (title, artist) of
             (Some t, Some a) \<Rightarrow> ''. '' @ a @ '' - '' @ t
           | (Some t, None) \<Rightarrow> ''. '' @ t
           | (None, Some a) \<Rightarrow> ''. '' @ a
           | (None, None) \<Rightarrow> []))
     @ ''.flac''"

definition disc_val :: "nat option \<Rightarrow> val" where
  \<comment> \<open>the DISCNUMBER entry of a record: \<^verbatim>\<open>None\<close> or a number\<close>
  "disc_val disc = (case disc of None \<Rightarrow> VNone | Some d \<Rightarrow> VInt (int d))"

text \<open>
  The identifier of a track as \<^verbatim>\<open>track_id_to_string\<close> prints it with both padding
  widths 0: the album in double quotes when it is not empty, the disc number and a dot
  when the disc is a number other than 0, and the track number, none of them padded.
\<close>

definition is_disc_key :: "val \<Rightarrow> bool" where
  "is_disc_key v = (case v of VNone \<Rightarrow> True | VInt _ \<Rightarrow> True | _ \<Rightarrow> False)"

definition track_id_unpadded :: "val \<Rightarrow> val \<Rightarrow> int \<Rightarrow> string" where
  "track_id_unpadded album disc num =
     (if truthy album then [CHR 0x22] @ str_val album @ [CHR 0x22] @ '':'' else [])
     @ ''#''
     @ (case disc of VInt d \<Rightarrow> (if d \<noteq> 0 then str_int d @ ''.'' else []) | _ \<Rightarrow> [])
     @ str_int num"

text \<open>A small file system and path environment, for the concrete instances below.\<close>

definition name_suffix :: "string \<Rightarrow> string" where
  "name_suffix name =
     (if CHR ''.'' \<in> set name then CHR ''.'' # rev (takeWhile (\<lambda>c. c \<noteq> CHR ''.'') (rev name)) else [])"

definition example_fs :: fsenv where
  "example_fs =
     \<lparr>is_file = (\<lambda>p. p = [''/'', ''music'', ''a.zip'']),
      is_dir = (\<lambda>p. p = [''tmp'', ''0'', ''Album'']),
      suffix = (\<lambda>p. case p of [] \<Rightarrow> [] | _ \<Rightarrow> name_suffix (last p)),
      listdir = (\<lambda>p. if p = [''tmp'', ''0''] then Inr [''Album'']
                      else if p = [''tmp'', ''0'', ''Album''] then Inr [''12 twelve.flac'', ''cover.jpg'']
                      else Inl (OSError p)),
      mkdtemp = (\<lambda>p. [''tmp'', ''0'']),
      extractor = (\<lambda>fmt a c. True),
      cover_file = (\<lambda>c. [''tmp'', ''covers'', ''c0'']),
      metaflac_export = (\<lambda>c. False)\<rparr>"

definition example_paths :: pathenv where
  "example_paths =
     \<lparr>is_absolute = (\<lambda>s. take 1 s = ''/''),
      mk_path = (\<lambda>s. if take 1 s = ''/'' then [''/'', drop 1 s] else [s]),
      resolve_abs = (\<lambda>s. [''/'', drop 1 s]),
      resolve_rel = (\<lambda>s. if take 1 s = ''/'' then [''/'', drop 1 s] else [''/'', ''music'', s]),
      resolve_in = (\<lambda>d s. d @ [s])\<rparr>"

definition two_track_tree :: tree where
  "two_track_tree =
     [(VStr ''Al'', [(VInt 1,
        [(5, [(''INPUT'', VPath [''tmp'', ''0'', ''Album''])]),
         (12, [(''INPUT'', VPath [''tmp'', ''0'', ''Album''])])])])]"

definition cover_tree :: tree where
  "cover_tree = [(VNone, [(VNone, [(1, [(''COVER'', VPath [''in'', ''01.FLAC''])])])])]"

definition cover_error :: "path \<Rightarrow> string" where
  \<comment> \<open>the line \<^verbatim>\<open>map_covers\<close> prints for a cover whose extraction failed\<close>
  "cover_error c = ''ERROR: Could not extract cover art from '' @ [CHR 0x27] @ str_path c @ [CHR 0x27] @ ''!''"

definition cover_is_path :: "tags \<Rightarrow> bool" where
  \<comment> \<open>the COVER entry of a record, if there is one, is a Path, as the parser stores it\<close>
  "cover_is_path tgs = (case map_of tgs ''COVER'' of Some (VPath p) \<Rightarrow> True | Some _ \<Rightarrow> False | None \<Rightarrow> True)"












text \<open>
  The resolution of one declared path as the specification words it, segment by
  segment: a segment that names an archive is extracted, and its effective root is the
  sole entry of the extraction result when that is a directory, else the extraction
  root; any other segment is its own effective root; the remaining segments are
  resolved from the effective root, and a path without segments left maps to it.
\<close>

definition names_archive :: "fsenv \<Rightarrow> path \<Rightarrow> bool" where
  "names_archive F stub = (is_file F stub \<and> lower (suffix F stub) \<in> set ARCHIVE_EXTS)"

definition spec_effective_root :: "fsenv \<Rightarrow> path \<Rightarrow> error + path" where
  "spec_effective_root F stub =
     (if names_archive F stub then
        bind (expand_archive F stub) (\<lambda>root.
        bind (listdir F root) (\<lambda>entries.
          case entries of
            [e] \<Rightarrow> if is_dir F (root @ [e]) then Inr (root @ [e]) else Inr root
          | _ \<Rightarrow> Inr root))
      else Inr stub)"

fun spec_resolve :: "fsenv \<Rightarrow> path \<Rightarrow> path \<Rightarrow> error + path" where
  "spec_resolve F parent [] = Inr parent"
| "spec_resolve F parent (seg # rest) =
     bind (spec_effective_root F (parent @ [seg])) (\<lambda>root. spec_resolve F root rest)"

section \<open>An empty album at track scope\<close>

text \<open>
  C10. There is a manifest the grammar accepts, the single line \<^verbatim>\<open>ALBUM[1]=\<close>, for
  which \<^verbatim>\<open>parse_trackinfo_meta\<close> files track 1 under the album key \<^verbatim>\<open>""\<close>, which
  is not the key \<^verbatim>\<open>None\<close> of the unknown album (nothing is filed there), and deletes
  the ALBUM entry that the record inherited from the global scope; on that record
  \<^verbatim>\<open>gen_output_path\<close> raises KeyError, because it reads \<^verbatim>\<open>tags['ALBUM']\<close> first.
\<close>

theorem empty_track_album_breaks_gen_output_path:
  "\<exists>info r. parse_trackinfo_meta P [''ALBUM[1]=''] input_map = Inr info
      \<and> tree_get info (VStr []) VNone 1 = Some r
      \<and> tree_get info VNone VNone 1 = None
      \<and> VStr [] \<noteq> VNone
      \<and> contains (AList.update ''TRACKNUMBER'' (VInt 1) (global_meta init_state)) ''ALBUM''
      \<and> \<not> contains r ''ALBUM''
      \<and> gen_output_path truncate_filename r out_dir disc_padding track_padding
          = Inl (KeyError ''ALBUM'')"
proof -
  let ?r = "[(''DISCNUMBER'', VNone), (''TRACKNUMBER'', VInt 1)]"
  let ?info = "[(VStr [], [(VNone, [(1, ?r)])])]"
  have 1: "parse_trackinfo_meta P [''ALBUM[1]=''] input_map = Inr ?info"
    by code_simp
  have 2: "tree_get ?info (VStr []) VNone 1 = Some ?r"
    by code_simp
  have 3: "tree_get ?info VNone VNone 1 = None"
    by code_simp
  have 4: "contains (AList.update ''TRACKNUMBER'' (VInt 1) (global_meta init_state)) ''ALBUM''"
    by code_simp
  have 5: "\<not> contains ?r ''ALBUM''"
    by code_simp
  have 6: "gen_output_path truncate_filename ?r out_dir disc_padding track_padding
            = Inl (KeyError ''ALBUM'')"
    by (simp add: gen_output_path_def gen_output_name_def bind_def getitem_def)
  from 1 2 3 4 5 6 show ?thesis by blast
qed

section \<open>Padding of a track or disc number 0\<close>

text \<open>
  For a positive number the width is the one of the specification,
  \<open>\<lfloor>log\<^sub>1\<^sub>0 n\<rfloor> + 1\<close>, which is the number of its decimal digits.
\<close>

lemma floor_log10_plus_1_pos:
  "0 < n \<Longrightarrow> floor_log10_plus_1 n = Inr (nat \<lfloor>log 10 (real_of_int n)\<rfloor> + 1)"
  by (simp add: floor_log10_plus_1_def floorlog_def)

lemma length_str_nat: "0 < n \<Longrightarrow> length (str_nat n) = floorlog 10 n"
proof (induction n rule: str_nat.induct)
  case (1 n)
  show ?case
  proof (cases "n < 10")
    case True
    with "1.prems" have "floorlog 10 n = 1"
      by (subst compute_floorlog) (simp add: compute_floorlog)
    with True show ?thesis by (subst str_nat.simps) simp
  next
    case False
    then have "0 < n div 10" by simp
    with 1 False have "length (str_nat (n div 10)) = floorlog 10 (n div 10)" by simp
    moreover have "floorlog 10 n = floorlog 10 (n div 10) + 1"
      using "1.prems" by (subst compute_floorlog) simp
    ultimately show ?thesis using False by (subst str_nat.simps) simp
  qed
qed

lemma floor_log10_plus_1_digits:
  "0 < n \<Longrightarrow> floor_log10_plus_1 n = Inr (length (str_int n))"
  by (simp add: floor_log10_plus_1_def str_int_def length_str_nat)

text \<open>
  C2 (the code fails where the claim says it returns). The grammar accepts the track
  index 0 and the disc number 0. On the tree parsed from the line \<^verbatim>\<open>TITLE[0]=A\<close>,
  whose only track number is 0, \<^verbatim>\<open>calc_padding\<close> raises the ValueError of
  \<^verbatim>\<open>math.log10(0)\<close> instead of returning the width 1; it does the same on a tree
  whose only disc key is 0.
\<close>

theorem calc_padding_fails_on_zero:
  "\<exists>info. parse_trackinfo_meta P [''TITLE[0]=A''] input_map = Inr info
      \<and> calc_padding info = Inl (ValueError ''math domain error'')
      \<and> calc_padding [(VNone, [(VInt 0, [(1, tgs)])])] = Inl (ValueError ''math domain error'')"
proof -
  let ?info = "[(VNone, [(VNone, [(0, [(''ALBUM'', VNone), (''DISCNUMBER'', VNone),
                   (''TRACKNUMBER'', VInt 0), (''TITLE'', VStr ''A'')])])])]"
  have 1: "parse_trackinfo_meta P [''TITLE[0]=A''] input_map = Inr ?info"
    by code_simp
  have 2: "calc_padding ?info = Inl (ValueError ''math domain error'')"
    by code_simp
  have 3: "calc_padding [(VNone, [(VInt 0, [(1, tgs)])])] = Inl (ValueError ''math domain error'')"
    by code_simp
  from 1 2 3 show ?thesis by blast
qed

section \<open>The output file name\<close>

lemma str_nat_nonempty: "str_nat n \<noteq> []"
  by (induction n rule: str_nat.induct) (subst str_nat.simps, simp)

lemma str_nat_hd_digit: "hd (str_nat n) \<in> set ascii_digits"
proof (induction n rule: str_nat.induct)
  case (1 n)
  show ?case
  proof (cases "n < 10")
    case True
    then have "ascii_digits ! n \<in> set ascii_digits"
      by (intro nth_mem) (simp add: ascii_digits_def)
    with True show ?thesis by (subst str_nat.simps) simp
  next
    case False
    with 1 have "hd (str_nat (n div 10)) \<in> set ascii_digits" by simp
    with False show ?thesis
      by (subst str_nat.simps) (simp add: str_nat_nonempty)
  qed
qed

lemma zfill_str_nat: "zfill w (str_nat n) = zero_pad w n"
proof -
  obtain c r where cr: "str_nat n = c # r"
    using str_nat_nonempty[of n] by (cases "str_nat n") auto
  have "c \<in> set ascii_digits" using str_nat_hd_digit[of n] cr by simp
  then have "c \<noteq> CHR ''+''" "c \<noteq> CHR ''-''" by (auto simp: ascii_digits_def)
  then show ?thesis
    by (simp add: zfill_def zero_pad_def cr)
qed

lemma str_val_nat: "str_val (VInt (int n)) = str_nat n"
  by (simp add: str_val_def str_int_def)

lemma no_slash_replace: "CHR ''/'' \<notin> set (replace_slash s)"
  by (auto simp: replace_slash_def)

text \<open>
  C8, as the claim states it, fails: \<^verbatim>\<open>gen_output_path\<close> also reads
  \<^verbatim>\<open>tags['TRACKNUMBER']\<close> without a check. The manifest \<^verbatim>\<open>TRACKNUMBER[1]=\<close> is
  accepted and leaves a record with the ALBUM and DISCNUMBER entries and no
  TRACKNUMBER entry, on which \<^verbatim>\<open>gen_output_path\<close> raises KeyError.
\<close>

theorem gen_output_path_without_tracknumber_counterexample:
  "parse_trackinfo_meta example_paths [''TRACKNUMBER[1]=''] []
     = Inr [(VNone, [(VNone, [(1, [(''ALBUM'', VNone), (''DISCNUMBER'', VNone)])])])]
   \<and> contains [(''ALBUM'', VNone), (''DISCNUMBER'', VNone)] ''ALBUM''
   \<and> contains [(''ALBUM'', VNone), (''DISCNUMBER'', VNone)] ''DISCNUMBER''
   \<and> gen_output_path (\<lambda>s. Inr [s]) [(''ALBUM'', VNone), (''DISCNUMBER'', VNone)] [''out''] 1 1
       = Inl (KeyError ''TRACKNUMBER'')"
  by code_simp

text \<open>
  C8, amended. For every track record with an ALBUM entry (\<^verbatim>\<open>None\<close> or a string),
  a DISCNUMBER entry (\<^verbatim>\<open>None\<close> or a number), a TRACKNUMBER entry that is a number,
  and TITLE and ARTIST entries that, where present, are strings, the name that
  \<^verbatim>\<open>gen_output_path\<close> hands to the filename sanitizer is the one of the
  specification: the zero-padded disc number and a dot only when there is a disc, the
  zero-padded track number, then \<^verbatim>\<open>". ARTIST - TITLE"\<close>, \<^verbatim>\<open>". TITLE"\<close>,
  \<^verbatim>\<open>". ARTIST"\<close> or nothing; no slash is left in it and it ends in \<^verbatim>\<open>.flac\<close>, which
  is appended before the sanitizer runs.
\<close>

theorem gen_output_path_filename:
  assumes album: "map_of tgs ''ALBUM'' = Some album" "album_dir_of album = Inr album_dir"
    and disc: "map_of tgs ''DISCNUMBER'' = Some (disc_val disc)"
    and num: "map_of tgs ''TRACKNUMBER'' = Some (VInt (int num))"
    and title: "map_of tgs ''TITLE'' = map_option VStr title"
    and artist: "map_of tgs ''ARTIST'' = map_option VStr artist"
  shows "gen_output_path truncate_filename tgs out_dir disc_padding track_padding
           = bind (truncate_filename (spec_filename disc_padding track_padding disc num title artist))
               (\<lambda>t. Inr (out_dir, album_dir, t))
         \<and> CHR ''/'' \<notin> set (spec_filename disc_padding track_padding disc num title artist)"
proof -
  have name: "gen_output_name tgs disc_padding track_padding
                = Inr (album_dir, spec_filename disc_padding track_padding disc num title artist)"
    using assms
    by (cases disc; cases title; cases artist)
       (simp_all add: gen_output_name_def bind_def getitem_def contains_def spec_filename_def
          disc_val_def as_str_def zfill_str_nat str_val_nat)
  have "CHR ''/'' \<notin> set (spec_filename disc_padding track_padding disc num title artist)"
    by (simp add: spec_filename_def no_slash_replace)
  with name show ?thesis
    by (simp add: gen_output_path_def bind_def)
qed

text \<open>The theorem at a record with a disc, a title with a slash and an artist.\<close>

theorem gen_output_path_filename_witness:
  "gen_output_path (\<lambda>s. Inr [s])
     [(''ALBUM'', VStr ''Test''), (''DISCNUMBER'', VInt 1), (''TRACKNUMBER'', VInt 2),
      (''TITLE'', VStr ''A/B''), (''ARTIST'', VStr ''X'')] [''out''] 2 3
   = Inr ([''out''], ''Test'', [''01.002. X - A_B.flac''])"
proof -
  have s: "spec_filename 2 3 (Some (Suc 0)) 2 (Some ''A/B'') (Some ''X'') = ''01.002. X - A_B.flac''"
    by code_simp
  have a: "album_dir_of (VStr ''Test'') = Inr ''Test''" by code_simp
  show ?thesis
    using gen_output_path_filename[of "[(''ALBUM'', VStr ''Test''), (''DISCNUMBER'', VInt 1), (''TRACKNUMBER'', VInt 2),
      (''TITLE'', VStr ''A/B''), (''ARTIST'', VStr ''X'')]" "VStr ''Test''" "''Test''" "Some 1" 2 "Some ''A/B''" "Some ''X''"
      "\<lambda>s. Inr [s]" "[''out'']" 2 3]
    by (simp add: a s disc_val_def bind_def)
qed

section \<open>A track without a source file\<close>

lemma map_tracks_loop_append:
  "map_tracks_loop F album disc acc (xs @ ys)
     = bind (map_tracks_loop F album disc acc xs) (\<lambda>acc'. map_tracks_loop F album disc acc' ys)"
proof (induction xs arbitrary: acc)
  case Nil
  then show ?case by (simp add: bind_def)
next
  case (Cons x xs)
  obtain num tgs where x: "x = (num, tgs)" by (cases x)
  show ?case
    by (simp add: x Cons.IH bind_def split: sum.splits option.splits)
qed

lemma map_tracks_discs_append:
  "map_tracks_discs F album acc (xs @ ys)
     = bind (map_tracks_discs F album acc xs) (\<lambda>acc'. map_tracks_discs F album acc' ys)"
proof (induction xs arbitrary: acc)
  case Nil
  then show ?case by (simp add: bind_def)
next
  case (Cons x xs)
  obtain disc tracks where x: "x = (disc, tracks)" by (cases x)
  show ?case
    by (simp add: x Cons.IH bind_def split: sum.splits)
qed

lemma map_tracks_albums_append:
  "map_tracks_albums F acc (xs @ ys)
     = bind (map_tracks_albums F acc xs) (\<lambda>acc'. map_tracks_albums F acc' ys)"
proof (induction xs arbitrary: acc)
  case Nil
  then show ?case by (simp add: bind_def)
next
  case (Cons x xs)
  obtain album discs where x: "x = (album, discs)" by (cases x)
  show ?case
    by (simp add: x Cons.IH bind_def split: sum.splits)
qed

lemma zfill_0: "zfill 0 s = s"
  by (simp add: zfill_def)

lemma track_id_to_string_unpadded:
  "is_disc_key disc \<Longrightarrow> track_id_to_string album disc num 0 0 = Inr (track_id_unpadded album disc num)"
  by (cases disc)
     (simp_all add: is_disc_key_def track_id_to_string_def track_id_unpadded_def bind_def
        truthy_def format_0d_def zfill_0)

lemma find_None_iff_all: "(\<forall>x\<in>set xs. \<not> P x) \<Longrightarrow> find P xs = None"
  by (induction xs) auto

lemma map_tracks_loop_missing:
  assumes "map_of tgs ''INPUT'' = Some (VPath d)" "listdir F d = Inr names"
    "\<forall>name\<in>set names. \<not> is_track_file num name" "is_disc_key disc"
  shows "map_tracks_loop F album disc acc ((num, tgs) # rest)
           = Inl (FileNotFoundError (''Could not find file for track '' @ track_id_unpadded album disc num))"
  using assms
  by (simp add: bind_def getitem_def as_path_def find_None_iff_all track_id_to_string_unpadded)

text \<open>
  C6, as the claim states it, fails: \<^verbatim>\<open>map_tracks\<close> calls \<^verbatim>\<open>track_id_to_string\<close>
  without padding widths, so both default to 0. On an album with the tracks 5 and 12
  of disc 1, whose directory has no file for track 5, the computed widths are 1 and 2
  and the padded identifier ends in \<^verbatim>\<open>#1.05\<close>, but the message of the error ends in
  \<^verbatim>\<open>#1.5\<close>.
\<close>

theorem map_tracks_message_unpadded_counterexample:
  "map_tracks example_fs two_track_tree
     = Inl (FileNotFoundError (''Could not find file for track '' @ [CHR 0x22] @ ''Al'' @ [CHR 0x22] @ '':#1.5''))
   \<and> calc_padding two_track_tree = Inr ([(VStr ''Al'', 1)], [(VStr ''Al'', [(VInt 1, 2)])])
   \<and> track_id_to_string (VStr ''Al'') (VInt 1) 5 1 2 = Inr ([CHR 0x22] @ ''Al'' @ [CHR 0x22] @ '':#1.05'')
   \<and> map_tracks example_fs two_track_tree
     \<noteq> Inl (FileNotFoundError (''Could not find file for track '' @ [CHR 0x22] @ ''Al'' @ [CHR 0x22] @ '':#1.05''))"
  by code_simp

text \<open>
  C6, amended. When \<^verbatim>\<open>map_tracks\<close> reaches a track record (the records before it
  having been mapped) whose resolved INPUT directory has no entry whose first integer
  before the \<^verbatim>\<open>.flac\<close> extension equals the track number, it raises
  FileNotFoundError with the message \<^verbatim>\<open>Could not find file for track\<close> followed by
  the identifier \<^verbatim>\<open>"Album":#disc.track\<close>, in which the album is quoted when it is not
  empty, the disc is printed when it is a number other than 0, and the disc and track
  numbers are not padded.
\<close>

theorem map_tracks_missing_file:
  assumes pre: "map_tracks_albums F [] pre_albums = Inr A"
      "map_tracks_discs F album [] pre_discs = Inr D"
      "map_tracks_loop F album disc [] pre_tracks = Inr T"
    and inp: "map_of tgs ''INPUT'' = Some (VPath d)" "listdir F d = Inr names"
    and missing: "\<forall>name\<in>set names. \<not> is_track_file num name"
    and disc: "is_disc_key disc"
  shows "map_tracks F
           (pre_albums @ (album, pre_discs @ (disc, pre_tracks @ (num, tgs) # post_tracks) # post_discs)
              # post_albums)
         = Inl (FileNotFoundError (''Could not find file for track '' @ track_id_unpadded album disc num))"
proof -
  let ?e = "FileNotFoundError (''Could not find file for track '' @ track_id_unpadded album disc num)"
  have 1: "map_tracks_loop F album disc [] (pre_tracks @ (num, tgs) # post_tracks) = Inl ?e"
    by (simp add: map_tracks_loop_append pre(3) bind_def
          map_tracks_loop_missing[OF inp missing disc] del: map_tracks_loop.simps)
  have 2: "map_tracks_discs F album []
             (pre_discs @ (disc, pre_tracks @ (num, tgs) # post_tracks) # post_discs) = Inl ?e"
    by (simp add: map_tracks_discs_append pre(2) bind_def 1)
  show ?thesis
    by (simp add: map_tracks_def map_tracks_albums_append pre(1) bind_def 2)
qed

text \<open>The theorem at the second track of a disc whose directory has track 12 only.\<close>

theorem map_tracks_missing_file_witness:
  "map_tracks example_fs
     [(VStr ''Al'', [(VInt 1,
       [(12, [(''INPUT'', VPath [''tmp'', ''0'', ''Album''])]),
        (5, [(''INPUT'', VPath [''tmp'', ''0'', ''Album''])])])])]
   = Inl (FileNotFoundError (''Could not find file for track '' @ [CHR 0x22] @ ''Al'' @ [CHR 0x22] @ '':#1.5''))"
proof -
  have a: "map_tracks_albums example_fs [] [] = Inr []" by simp
  have b: "map_tracks_discs example_fs (VStr ''Al'') [] [] = Inr []" by simp
  have c: "map_tracks_loop example_fs (VStr ''Al'') (VInt 1) []
             [(12, [(''INPUT'', VPath [''tmp'', ''0'', ''Album''])])] = Inr [(12, ''12 twelve.flac'')]"
    by code_simp
  have d: "map_of [(''INPUT'', VPath [''tmp'', ''0'', ''Album''])] ''INPUT'' = Some (VPath [''tmp'', ''0'', ''Album''])"
    by simp
  have e: "listdir example_fs [''tmp'', ''0'', ''Album''] = Inr [''12 twelve.flac'', ''cover.jpg'']"
    by (simp add: example_fs_def)
  have f: "\<forall>name\<in>set [''12 twelve.flac'', ''cover.jpg'']. \<not> is_track_file 5 name"
    by code_simp
  have g: "is_disc_key (VInt 1)" by code_simp
  have h: "track_id_unpadded (VStr ''Al'') (VInt 1) 5 = [CHR 0x22] @ ''Al'' @ [CHR 0x22] @ '':#1.5''"
    by code_simp
  from map_tracks_missing_file[OF a b c d e f g, of "[]" "[]" "[]"] h
  show ?thesis by simp
qed

section \<open>A cover whose extraction fails\<close>

lemma collect_covers_ok:
  assumes "list_all cover_is_path ts"
  shows "\<exists>ret' s'. collect_covers F (ret, s) ts = Inr (ret', s') \<and> set s \<subseteq> set s'
           \<and> (\<forall>t\<in>set ts. \<forall>c. map_of t ''COVER'' = Some (VPath c) \<and> lower (suffix F c) = ''.flac''
                  \<longrightarrow> c \<in> set s')"
  using assms
proof (induction ts arbitrary: ret s)
  case Nil
  then show ?case by simp
next
  case (Cons t ts)
  from Cons.prems have wf: "cover_is_path t" and rest: "list_all cover_is_path ts" by simp_all
  show ?case
  proof (cases "map_of t ''COVER''")
    case None
    from Cons.IH[OF rest, of ret s] None show ?thesis
      by (auto simp: contains_def)
  next
    case (Some v)
    with wf obtain c where v: "v = VPath c" by (cases v) (auto simp: cover_is_path_def)
    show ?thesis
    proof (cases "lower (suffix F c) = ''.flac''")
      case True
      from Cons.IH[OF rest, of ret "set_add c s"] obtain ret' s' where
        r: "collect_covers F (ret, set_add c s) ts = Inr (ret', s')" "set (set_add c s) \<subseteq> set s'"
           "\<forall>t\<in>set ts. \<forall>c. map_of t ''COVER'' = Some (VPath c) \<and> lower (suffix F c) = ''.flac'' \<longrightarrow> c \<in> set s'"
        by blast
      have "c \<in> set (set_add c s)" "set s \<subseteq> set (set_add c s)" by (auto simp: set_add_def)
      with r Some v True show ?thesis
        by (auto simp: contains_def getitem_def as_path_def bind_def)
    next
      case False
      from Cons.IH[OF rest, of "AList.update c c ret" s] Some v False show ?thesis
        by (auto simp: contains_def getitem_def as_path_def bind_def)
    qed
  qed
qed

lemma extract_covers_keeps:
  "map_of ret c = Some (cover_file F c) \<Longrightarrow>
     map_of (fst (extract_covers F (ret, err) xs)) c = Some (cover_file F c)"
  by (induction xs arbitrary: ret err) (simp_all add: update_conv' Let_def)

lemma extract_covers_err_mono:
  "e \<in> set err \<Longrightarrow> e \<in> set (snd (extract_covers F (ret, err) xs))"
  by (induction xs arbitrary: ret err) (simp_all add: Let_def)

lemma extract_covers_entry:
  "c \<in> set xs \<Longrightarrow>
     map_of (fst (extract_covers F (ret, err) xs)) c = Some (cover_file F c)
     \<and> (\<not> metaflac_export F c \<longrightarrow> cover_error c \<in> set (snd (extract_covers F (ret, err) xs)))"
proof (induction xs arbitrary: ret err)
  case Nil
  then show ?case by simp
next
  case (Cons x xs)
  show ?case
  proof (cases "x = c")
    case True
    then show ?thesis
      by (simp add: Let_def extract_covers_keeps update_conv' extract_covers_err_mono cover_error_def)
  next
    case False
    with Cons.prems have "c \<in> set xs" by simp
    from Cons.IH[OF this] show ?thesis by (simp add: Let_def)
  qed
qed

text \<open>
  C4, as the claim states it, fails: the store \<^verbatim>\<open>ret[flac_cover] = Path(cover_file.name)\<close>
  stands after the \<^verbatim>\<open>try\<close> statement and runs whether or not \<^verbatim>\<open>metaflac\<close>
  succeeded. For a cover \<^verbatim>\<open>in/01.FLAC\<close> whose extraction fails, the returned map has
  an entry for the cover path (the temporary file): a lookup does not miss.
\<close>

theorem map_covers_no_mapping_miss_counterexample:
  "\<not> metaflac_export example_fs [''in'', ''01.FLAC'']
   \<and> map_covers example_fs cover_tree
       = Inr ([([''in'', ''01.FLAC''], [''tmp'', ''covers'', ''c0''])], [cover_error [''in'', ''01.FLAC'']])
   \<and> map_of [([''in'', ''01.FLAC''], [''tmp'', ''covers'', ''c0''])] [''in'', ''01.FLAC''] \<noteq> None"
  by code_simp

text \<open>
  C4, amended. For every track whose COVER path has the extension \<^verbatim>\<open>.flac\<close> (in any
  case), if the picture-extraction process exits non-zero then \<^verbatim>\<open>map_covers\<close> still
  returns (the failure is not fatal), it reports the error
  \<^verbatim>\<open>ERROR: Could not extract cover art from '...'!\<close>, and the returned cover map maps
  that cover path to the temporary file created for it.
\<close>

theorem map_covers_failed_extraction:
  assumes "tgs \<in> set (all_tags info)" "map_of tgs ''COVER'' = Some (VPath c)"
    "lower (suffix F c) = ''.flac''" "\<not> metaflac_export F c"
    "list_all cover_is_path (all_tags info)"
  shows "\<exists>ret err. map_covers F info = Inr (ret, err)
           \<and> cover_error c \<in> set err
           \<and> map_of ret c = Some (cover_file F c)"
proof -
  from collect_covers_ok[OF assms(5), of F "[]" "[]"] obtain ret0 s where
    c: "collect_covers F ([], []) (all_tags info) = Inr (ret0, s)"
    and mem: "\<forall>t\<in>set (all_tags info). \<forall>c. map_of t ''COVER'' = Some (VPath c)
                 \<and> lower (suffix F c) = ''.flac'' \<longrightarrow> c \<in> set s"
    by blast
  from mem assms(1,2,3) have "c \<in> set s" by blast
  from extract_covers_entry[OF this, of F ret0 "[]"] assms(4)
  have "map_of (fst (extract_covers F (ret0, []) s)) c = Some (cover_file F c)"
    "cover_error c \<in> set (snd (extract_covers F (ret0, []) s))" by simp_all
  moreover have "map_covers F info = Inr (fst (extract_covers F (ret0, []) s), snd (extract_covers F (ret0, []) s))"
    by (simp add: map_covers_def c bind_def)
  ultimately show ?thesis by blast
qed

text \<open>The theorem at the tree with one track and the cover \<^verbatim>\<open>in/01.FLAC\<close>.\<close>

theorem map_covers_failed_extraction_witness:
  "\<exists>ret err. map_covers example_fs cover_tree = Inr (ret, err)
      \<and> cover_error [''in'', ''01.FLAC''] \<in> set err
      \<and> map_of ret [''in'', ''01.FLAC''] = Some [''tmp'', ''covers'', ''c0'']"
proof -
  have a: "[(''COVER'', VPath [''in'', ''01.FLAC''])] \<in> set (all_tags cover_tree)" by code_simp
  have b: "map_of [(''COVER'', VPath [''in'', ''01.FLAC''])] ''COVER'' = Some (VPath [''in'', ''01.FLAC''])" by simp
  have c: "lower (suffix example_fs [''in'', ''01.FLAC'']) = ''.flac''" by code_simp
  have d: "\<not> metaflac_export example_fs [''in'', ''01.FLAC'']" by (simp add: example_fs_def)
  have e: "list_all cover_is_path (all_tags cover_tree)" by code_simp
  have f: "cover_file example_fs [''in'', ''01.FLAC''] = [''tmp'', ''covers'', ''c0'']" by (simp add: example_fs_def)
  from map_covers_failed_extraction[OF a b c d e] f show ?thesis by simp
qed

section \<open>An invalid disc number\<close>








section \<open>Facts about the parser\<close>





lemma warn_key_fields [simp]:
  "track_meta (warn_key key st) = track_meta st" "global_meta (warn_key key st) = global_meta st"
  by (simp_all add: warn_key_def)

lemma select_track_dict_warn [simp]:
  "select_track_dict (warn_key key st) a d n = select_track_dict st a d n"
  by (simp add: select_track_dict_def split: option.splits)







section \<open>Lines with an empty value\<close>





section \<open>Inheritance by value\<close>





section \<open>The records of a parsed tree\<close>














section \<open>Resolution of archives along the input paths\<close>

text \<open>
  Facts about the three loops of \<^verbatim>\<open>expand_archives_in_tree\<close>: the grouping keeps
  every tail under its head, the nodes keep their order, and the entries that a node
  stores in \<^verbatim>\<open>ret\<close> are not touched by the other nodes.
\<close>

lemma real_path_of_spec:
  "real_path_of F stub = Inr (r, l) \<Longrightarrow> spec_effective_root F stub = Inr r"
  by (auto simp: real_path_of_def spec_effective_root_def names_archive_def bind_def Let_def
           split: sum.splits if_splits list.splits)

lemma spec_real_path_of:
  "spec_effective_root F stub = Inr r \<Longrightarrow> \<exists>l. real_path_of F stub = Inr (r, l)"
  by (auto simp: real_path_of_def spec_effective_root_def names_archive_def bind_def Let_def
           split: sum.splits if_splits list.splits)

lemma map_of_add_node:
  "map_of (add_node h t nodes) h'
     = (if h' = h then Some (case map_of nodes h of None \<Rightarrow> [t] | Some ts \<Rightarrow> set_add t ts)
        else map_of nodes h')"
  by (auto simp: add_node_def update_conv' map_add_def split: option.splits)

lemma distinct_add_node:
  "distinct (map fst nodes) \<Longrightarrow> distinct (map fst (add_node h t nodes))"
  by (auto simp: add_node_def distinct_update split: option.splits dest: map_of_eq_None_iff[THEN iffD1])

lemma group_nodes_nonempty: "group_nodes nodes0 paths = Inr nodes \<Longrightarrow> [] \<notin> set paths"
  by (induction nodes0 paths rule: group_nodes.induct) auto

lemma group_nodes_distinct:
  "group_nodes nodes0 paths = Inr nodes \<Longrightarrow> distinct (map fst nodes0) \<Longrightarrow> distinct (map fst nodes)"
  by (induction nodes0 paths rule: group_nodes.induct) (auto simp: distinct_add_node)

lemma group_nodes_complete:
  "group_nodes nodes0 paths = Inr nodes \<Longrightarrow>
     h # t \<in> set paths \<or> (\<exists>ts0. map_of nodes0 h = Some ts0 \<and> t \<in> set ts0) \<Longrightarrow>
     \<exists>ts. map_of nodes h = Some ts \<and> t \<in> set ts"
proof (induction nodes0 paths rule: group_nodes.induct)
  case (1 nodes)
  then show ?case by auto
next
  case (2 nodes ps)
  then show ?case by simp
next
  case (3 nodes0 h' t' ps)
  have "h # t \<in> set ps \<or> (\<exists>ts0. map_of (add_node h' t' nodes0) h = Some ts0 \<and> t \<in> set ts0)"
    using "3.prems"(2)
    by (auto simp: map_of_add_node set_add_def split: option.splits)
  with 3 show ?case by simp
qed

lemma expand_nodes_shape:
  "expand_nodes F parent nodes = Inr (nn, lg) \<Longrightarrow>
     map fst nn = map fst nodes
     \<and> (\<forall>h tails. (h, tails) \<in> set nodes \<longrightarrow>
          (\<exists>r l. (h, parent @ [h], r, tails) \<in> set nn \<and> real_path_of F (parent @ [h]) = Inr (r, l)))"
proof (induction nodes arbitrary: nn lg)
  case Nil
  then show ?case by simp
next
  case (Cons a nodes)
  obtain h tails where a: "a = (h, tails)" by (cases a)
  from Cons.prems a obtain r l nn' lg' where
    r: "real_path_of F (parent @ [h]) = Inr (r, l)" and
    e: "expand_nodes F parent nodes = Inr (nn', lg')" and
    nn: "nn = (h, parent @ [h], r, tails) # nn'"
    by (auto simp: bind_def split: sum.splits)
  from Cons.IH[OF e] have ih1: "map fst nn' = map fst nodes"
    and ih2: "\<And>h tails. (h, tails) \<in> set nodes \<Longrightarrow>
          \<exists>r l. (h, parent @ [h], r, tails) \<in> set nn' \<and> real_path_of F (parent @ [h]) = Inr (r, l)"
    by blast+
  have "\<exists>r l. (h', parent @ [h'], r, tails') \<in> set nn \<and> real_path_of F (parent @ [h']) = Inr (r, l)"
    if "(h', tails') \<in> set (a # nodes)" for h' tails'
  proof (cases "(h', tails') = (h, tails)")
    case True
    with r nn show ?thesis by auto
  next
    case False
    with that a have "(h', tails') \<in> set nodes" by auto
    from ih2[OF this] nn show ?thesis by auto
  qed
  with ih1 a nn show ?case by auto
qed

lemma foldl_update_other:
  "k \<notin> (\<lambda>b. h # b) ` fst ` set m \<Longrightarrow>
     map_of (foldl (\<lambda>r (base, mapped). AList.update (h # base) mapped r) ret m) k = map_of ret k"
  by (induction m arbitrary: ret) (auto simp: update_conv')

lemma foldl_update_member:
  "(base, v) \<in> set m \<Longrightarrow> distinct (map fst m) \<Longrightarrow>
     map_of (foldl (\<lambda>r (base, mapped). AList.update (h # base) mapped r) ret m) (h # base) = Some v"
proof (induction m arbitrary: ret)
  case Nil
  then show ?case by simp
next
  case (Cons x m)
  obtain b0 v0 where x: "x = (b0, v0)" by (cases x)
  show ?case
  proof (cases "(base, v) = (b0, v0)")
    case True
    with Cons.prems(2) x have "h # base \<notin> (\<lambda>b. h # b) ` fst ` set m" by auto
    from foldl_update_other[OF this] True x show ?thesis by (simp add: update_conv')
  next
    case False
    with Cons.prems x have "(base, v) \<in> set m" "distinct (map fst m)" by auto
    from Cons.IH[OF this] x show ?thesis by simp
  qed
qed

lemma foldl_update_distinct:
  "distinct (map fst ret) \<Longrightarrow>
     distinct (map fst (foldl (\<lambda>r (base, mapped). AList.update (h # base) mapped r) ret m))"
  by (induction m arbitrary: ret) (auto simp: distinct_update)

lemma fill_ret_distinct:
  "fill_ret ret0 lg0 items = Inr (ret, lg) \<Longrightarrow> distinct (map fst ret0) \<Longrightarrow> distinct (map fst ret)"
proof (induction ret0 lg0 items rule: fill_ret.induct)
  case (1 ret lg)
  then show ?case by simp
next
  case (2 ret0 lg0 h stub real_path tails sub rest)
  from "2.prems"(1) obtain m l where sub: "sub = Inr (m, l)"
    by (cases sub) (auto simp: Let_def)
  let ?ret1 = "if [] \<in> set tails then AList.update [h] real_path ret0 else ret0"
  have "distinct (map fst ?ret1)" using "2.prems"(2) by (simp add: distinct_update)
  then have "distinct (map fst (foldl (\<lambda>r (base, mapped). AList.update (h # base) mapped r) ?ret1 m))"
    by (rule foldl_update_distinct)
  with 2 sub show ?case by (simp add: Let_def)
qed

lemma fill_ret_other:
  "fill_ret ret0 lg0 items = Inr (ret, lg) \<Longrightarrow>
     (\<forall>it\<in>set items. \<forall>b. k \<noteq> fst (fst it) # b) \<Longrightarrow>
     map_of ret k = map_of ret0 k"
proof (induction ret0 lg0 items rule: fill_ret.induct)
  case (1 ret lg)
  then show ?case by simp
next
  case (2 ret0 lg0 h' stub real_path tails sub rest)
  from "2.prems"(1) obtain m l where sub: "sub = Inr (m, l)"
    by (cases sub) (auto simp: Let_def)
  let ?ret1 = "if [] \<in> set tails then AList.update [h'] real_path ret0 else ret0"
  let ?ret2 = "foldl (\<lambda>r (base, mapped). AList.update (h' # base) mapped r) ?ret1 m"
  from "2.prems"(1) sub have run: "fill_ret ?ret2 (lg0 @ l) rest = Inr (ret, lg)"
    by (simp add: Let_def)
  from "2.prems"(2) have nk: "\<forall>b. k \<noteq> h' # b" by auto
  then have "k \<notin> (\<lambda>b. h' # b) ` fst ` set m" by auto
  from foldl_update_other[OF this] have "map_of ?ret2 k = map_of ?ret1 k" .
  also from nk have "map_of ?ret1 k = map_of ret0 k" by (simp add: update_conv')
  finally have eq: "map_of ?ret2 k = map_of ret0 k" .
  from "2.prems"(2) have "\<forall>it\<in>set rest. \<forall>b. k \<noteq> fst (fst it) # b" by auto
  from "2.IH"[OF refl sub refl run this] eq show ?case by simp
qed

lemma fill_ret_no_empty_key:
  "fill_ret ret0 lg0 items = Inr (ret, lg) \<Longrightarrow> map_of ret [] = map_of ret0 []"
  by (rule fill_ret_other) auto

lemma fill_ret_entry:
  assumes "fill_ret ret0 lg0 items = Inr (ret, lg)" "distinct (map (\<lambda>it. fst (fst it)) items)"
    "((h, stub, r, tails), sub) \<in> set items"
  shows "\<exists>m l. sub = Inr (m, l)
           \<and> (distinct (map fst m) \<longrightarrow> (\<forall>base v. (base, v) \<in> set m \<longrightarrow> map_of ret (h # base) = Some v))
           \<and> ([] \<in> set tails \<longrightarrow> [] \<notin> fst ` set m \<longrightarrow> map_of ret [h] = Some r)"
  using assms
proof (induction ret0 lg0 items rule: fill_ret.induct)
  case (1 ret lg)
  then show ?case by simp
next
  case (2 ret0 lg0 h' stub' real_path' tails' sub' rest)
  from "2.prems"(1) obtain m' l' where sub': "sub' = Inr (m', l')"
    by (cases sub') (auto simp: Let_def)
  let ?ret1 = "if [] \<in> set tails' then AList.update [h'] real_path' ret0 else ret0"
  let ?ret2 = "foldl (\<lambda>r (base, mapped). AList.update (h' # base) mapped r) ?ret1 m'"
  from "2.prems"(1) sub' have run: "fill_ret ?ret2 (lg0 @ l') rest = Inr (ret, lg)"
    by (simp add: Let_def)
  from "2.prems"(2) have dist: "distinct (map (\<lambda>it. fst (fst it)) rest)"
    and fresh: "\<forall>it\<in>set rest. fst (fst it) \<noteq> h'" by auto
  show ?case
  proof (cases "((h, stub, r, tails), sub) = ((h', stub', real_path', tails'), sub')")
    case False
    with "2.prems"(3) have "((h, stub, r, tails), sub) \<in> set rest" by (metis set_ConsD)
    from "2.IH"[OF refl sub' refl run dist this] show ?thesis .
  next
    case True
    then have eqs: "h = h'" "r = real_path'" "tails = tails'" "sub = sub'" by simp_all
    have keep: "map_of ret (h' # b) = map_of ?ret2 (h' # b)" for b
      by (rule fill_ret_other[OF run]) (use fresh in auto)
    have a: "map_of ret (h # base) = Some v" if "distinct (map fst m')" "(base, v) \<in> set m'" for base v
      using foldl_update_member[OF that(2,1), of h' ?ret1] keep[of base] eqs by simp
    have b: "map_of ret [h] = Some r" if "[] \<in> set tails" "[] \<notin> fst ` set m'"
    proof -
      from that(2) have "[h'] \<notin> (\<lambda>b. h' # b) ` fst ` set m'" by auto
      from foldl_update_other[OF this, of ?ret1] that(1) eqs have "map_of ?ret2 [h'] = Some r"
        by (simp add: update_conv')
      with keep[of "[]"] eqs show ?thesis by simp
    qed
    from a b sub' eqs show ?thesis by blast
  qed
qed

subsection \<open>The grouped expansion against the resolution path by path\<close>

lemma expand_unfold:
  assumes "expand_archives_in_tree F paths parent = Inr (ret, lg)"
  obtains nodes new_nodes lg0 where
    "group_nodes [] paths = Inr nodes"
    "expand_nodes F parent nodes = Inr (new_nodes, lg0)"
    "fill_ret [] lg0
       (map (\<lambda>nd. (nd, if node_tails nd \<noteq> []
                        then expand_archives_in_tree F (node_tails nd) (node_real nd)
                        else Inr ([], [])))
          new_nodes) = Inr (ret, lg)"
  using assms
  by (subst (asm) expand_archives_in_tree.simps) (auto split: sum.splits prod.splits)

lemma expand_distinct:
  assumes "expand_archives_in_tree F paths parent = Inr (ret, lg)"
  shows "distinct (map fst ret)"
  using assms by (elim expand_unfold) (drule fill_ret_distinct, simp_all)

lemma expand_no_empty_key:
  assumes "expand_archives_in_tree F paths parent = Inr (ret, lg)"
  shows "[] \<notin> fst ` set ret"
proof -
  from assms have "map_of ret [] = None"
    by (elim expand_unfold) (drule fill_ret_no_empty_key, simp)
  then show ?thesis by (simp add: map_of_eq_None_iff)
qed

lemma expand_resolves:
  "expand_archives_in_tree F paths parent = Inr (ret, lg) \<Longrightarrow> p \<in> set paths \<Longrightarrow>
     \<exists>target. spec_resolve F parent p = Inr target \<and> map_of ret p = Some target"
proof (induction F paths parent arbitrary: ret lg p rule: expand_archives_in_tree.induct)
  case (1 F paths parent)
  let ?sub = "\<lambda>nd. if node_tails nd \<noteq> []
                     then expand_archives_in_tree F (node_tails nd) (node_real nd)
                     else Inr ([], [])"
  from "1.prems"(1) obtain nodes new_nodes lg0 where
    g: "group_nodes [] paths = Inr nodes" and
    e: "expand_nodes F parent nodes = Inr (new_nodes, lg0)" and
    f: "fill_ret [] lg0 (map (\<lambda>nd. (nd, ?sub nd)) new_nodes) = Inr (ret, lg)"
    by (rule expand_unfold)
  from group_nodes_nonempty[OF g] "1.prems"(2) obtain h t where p: "p = h # t"
    by (cases p) auto
  from group_nodes_complete[OF g, of h t] "1.prems"(2) p obtain ts where
    ts: "map_of nodes h = Some ts" "t \<in> set ts" by auto
  then have "(h, ts) \<in> set nodes" by (auto dest: map_of_SomeD)
  with expand_nodes_shape[OF e] obtain r l where
    nd: "(h, parent @ [h], r, ts) \<in> set new_nodes" and
    rp: "real_path_of F (parent @ [h]) = Inr (r, l)" by blast
  let ?nd = "(h, parent @ [h], r, ts)"
  have dist: "distinct (map (\<lambda>it. fst (fst it)) (map (\<lambda>nd. (nd, ?sub nd)) new_nodes))"
    using expand_nodes_shape[OF e] group_nodes_distinct[OF g] by (simp add: comp_def)
  have item: "(?nd, ?sub ?nd) \<in> set (map (\<lambda>nd. (nd, ?sub nd)) new_nodes)"
    using nd by (intro image_eqI[of _ _ ?nd, THEN subst[OF set_map[symmetric], of "\<lambda>S. _ \<in> S"]]) simp_all
  from fill_ret_entry[OF f dist item] obtain m l' where
    sub: "?sub ?nd = Inr (m, l')" and
    deep: "distinct (map fst m) \<Longrightarrow> (base, v) \<in> set m \<Longrightarrow> map_of ret (h # base) = Some v" and
    top: "[] \<in> set ts \<Longrightarrow> [] \<notin> fst ` set m \<Longrightarrow> map_of ret [h] = Some r" for base v
    by blast
  have eff: "spec_effective_root F (parent @ [h]) = Inr r"
    by (rule real_path_of_spec[OF rp])
  have tails: "node_tails ?nd = removeAll [] ts" and real: "node_real ?nd = r"
    by (simp_all add: node_tails_def node_real_def)
  show ?case
  proof (cases "t = []")
    case True
    have "[] \<notin> fst ` set m"
    proof (cases "node_tails ?nd = []")
      case True
      with sub show ?thesis by simp
    next
      case False
      with sub have "expand_archives_in_tree F (node_tails ?nd) (node_real ?nd) = Inr (m, l')" by simp
      then show ?thesis by (rule expand_no_empty_key)
    qed
    with top ts(2) True have "map_of ret [h] = Some r" by simp
    with eff p True show ?thesis by (simp add: bind_def)
  next
    case False
    with ts(2) have mem: "t \<in> set (node_tails ?nd)" by (simp add: tails)
    then have ne: "node_tails ?nd \<noteq> []" by auto
    with sub have rec: "expand_archives_in_tree F (node_tails ?nd) (node_real ?nd) = Inr (m, l')" by simp
    from "1.IH"[OF g e refl nd ne rec mem] real obtain target where
      tg: "spec_resolve F r t = Inr target" "map_of m t = Some target" by auto
    from tg(2) have "(t, target) \<in> set m" by (rule map_of_SomeD)
    from deep[OF expand_distinct[OF rec] this] have "map_of ret (h # t) = Some target" .
    with tg(1) eff p show ?thesis by (simp add: bind_def)
  qed
qed


lemma group_nodes_total: "[] \<notin> set paths \<Longrightarrow> \<exists>nodes. group_nodes nodes0 paths = Inr nodes"
  by (induction nodes0 paths rule: group_nodes.induct) auto

lemma add_node_tails_nonempty:
  "\<forall>x\<in>set nodes. snd x \<noteq> [] \<Longrightarrow> \<forall>x\<in>set (add_node h t nodes). snd x \<noteq> []"
  by (auto simp: add_node_def set_add_def split: option.splits if_splits dest!: set_update_subset)

lemma group_nodes_tails_nonempty:
  "group_nodes nodes0 paths = Inr nodes \<Longrightarrow> \<forall>x\<in>set nodes0. snd x \<noteq> [] \<Longrightarrow> \<forall>x\<in>set nodes. snd x \<noteq> []"
proof (induction nodes0 paths rule: group_nodes.induct)
  case (1 nodes)
  then show ?case by simp
next
  case (2 nodes ps)
  then show ?case by simp
next
  case (3 nodes0 h t ps)
  from "3.prems"(2) have "\<forall>x\<in>set (add_node h t nodes0). snd x \<noteq> []"
    by (rule add_node_tails_nonempty)
  with 3 show ?case by simp
qed

lemma expand_nodes_total:
  "\<forall>x\<in>set nodes. \<exists>r l. real_path_of F (parent @ [fst x]) = Inr (r, l) \<Longrightarrow>
     \<exists>nn lg. expand_nodes F parent nodes = Inr (nn, lg)"
proof (induction nodes)
  case Nil
  then show ?case by simp
next
  case (Cons a nodes)
  obtain h tails where a: "a = (h, tails)" by (cases a)
  from Cons.prems a obtain r l where r: "real_path_of F (parent @ [h]) = Inr (r, l)" by auto
  from Cons.prems have "\<forall>x\<in>set nodes. \<exists>r l. real_path_of F (parent @ [fst x]) = Inr (r, l)" by simp
  from Cons.IH[OF this] obtain nn lg where "expand_nodes F parent nodes = Inr (nn, lg)" by blast
  with a r show ?case by (simp add: bind_def)
qed

lemma fill_ret_total:
  "\<forall>it\<in>set items. \<exists>m l. snd it = Inr (m, l) \<Longrightarrow> \<exists>ret lg. fill_ret ret0 lg0 items = Inr (ret, lg)"
proof (induction ret0 lg0 items rule: fill_ret.induct)
  case (1 ret lg)
  then show ?case by simp
next
  case (2 ret0 lg0 h stub real_path tails sub rest)
  from "2.prems" obtain m l where sub: "sub = Inr (m, l)" by auto
  from "2.prems" have "\<forall>it\<in>set rest. \<exists>m l. snd it = Inr (m, l)" by simp
  from "2.IH"[OF refl sub refl this] sub show ?case by (simp add: Let_def)
qed

lemma expand_returns:
  "\<forall>p\<in>set paths. p \<noteq> [] \<and> (\<exists>t. spec_resolve F parent p = Inr t) \<Longrightarrow>
     \<exists>ret lg. expand_archives_in_tree F paths parent = Inr (ret, lg)"
proof (induction F paths parent rule: expand_archives_in_tree.induct)
  case (1 F paths parent)
  let ?sub = "\<lambda>nd. if node_tails nd \<noteq> []
                     then expand_archives_in_tree F (node_tails nd) (node_real nd)
                     else Inr ([], [])"
  from "1.prems" have "[] \<notin> set paths" by auto
  from group_nodes_total[OF this] obtain nodes where g: "group_nodes [] paths = Inr nodes" by blast
  have ne: "\<forall>x\<in>set nodes. snd x \<noteq> []"
    by (rule group_nodes_tails_nonempty[OF g]) simp
  have "\<exists>r l. real_path_of F (parent @ [fst x]) = Inr (r, l)" if x: "x \<in> set nodes" for x
  proof -
    obtain h ts where xe: "x = (h, ts)" by (cases x)
    with ne x obtain t where "t \<in> set ts" by (cases ts) auto
    from group_nodes_mem[OF g _ this, of h] x xe have "h # t \<in> set paths" by simp
    with "1.prems" obtain target where "spec_resolve F parent (h # t) = Inr target" by blast
    then obtain r where "spec_effective_root F (parent @ [h]) = Inr r"
      by (auto simp: bind_def split: sum.splits)
    from spec_real_path_of[OF this] xe show ?thesis by auto
  qed
  then have "\<forall>x\<in>set nodes. \<exists>r l. real_path_of F (parent @ [fst x]) = Inr (r, l)" by blast
  from expand_nodes_total[OF this] obtain new_nodes lg0 where
    e: "expand_nodes F parent nodes = Inr (new_nodes, lg0)" by blast
  have "\<exists>m l. ?sub nd = Inr (m, l)" if nd: "nd \<in> set new_nodes" for nd
  proof (cases "node_tails nd = []")
    case True
    then show ?thesis by simp
  next
    case False
    from expand_nodes_mem[OF e nd] obtain h tails r l where
      ndeq: "nd = (h, parent @ [h], r, tails)" and mem: "(h, tails) \<in> set nodes"
      and rp: "real_path_of F (parent @ [h]) = Inr (r, l)" by blast
    have "\<forall>t\<in>set (node_tails nd). t \<noteq> [] \<and> (\<exists>target. spec_resolve F (node_real nd) t = Inr target)"
    proof
      fix t assume "t \<in> set (node_tails nd)"
      then have t: "t \<in> set tails" "t \<noteq> []" by (simp_all add: node_tails_def ndeq)
      from group_nodes_mem[OF g mem t(1)] have "h # t \<in> set paths" by simp
      with "1.prems" obtain target where "spec_resolve F parent (h # t) = Inr target" by blast
      with real_path_of_spec[OF rp] have "spec_resolve F r t = Inr target" by (simp add: bind_def)
      with t(2) ndeq show "t \<noteq> [] \<and> (\<exists>target. spec_resolve F (node_real nd) t = Inr target)"
        by (auto simp: node_real_def)
    qed
    from "1.IH"[OF g e refl nd False this] False show ?thesis by auto
  qed
  then have "\<forall>it\<in>set (map (\<lambda>nd. (nd, ?sub nd)) new_nodes). \<exists>m l. snd it = Inr (m, l)" by auto
  from fill_ret_total[OF this, of "[]" lg0] obtain ret lg where
    "fill_ret [] lg0 (map (\<lambda>nd. (nd, ?sub nd)) new_nodes) = Inr (ret, lg)" by blast
  with g e show ?case
    by (subst expand_archives_in_tree.simps) simp
qed

text \<open>
  C9. \<^verbatim>\<open>expand_archives_in_tree\<close> maps every declared path to what the resolution
  segment by segment gives: at a segment that names an archive the effective root,
  used for the mapping of that segment and for the remaining segments, is the sole
  directory of the extraction result when it has exactly one entry and that entry is a
  directory, and the extraction root otherwise; a path without remaining segments maps
  to its effective directory, and a segment that names no archive maps to itself. The
  function returns whenever that resolution succeeds on every path (and no path is
  empty), and what it returns agrees with it on every path.
\<close>

theorem expand_archives_in_tree_resolves:
  "((\<forall>p\<in>set paths. p \<noteq> [] \<and> (\<exists>t. spec_resolve F parent p = Inr t)) \<longrightarrow>
      (\<exists>ret lg. expand_archives_in_tree F paths parent = Inr (ret, lg)))
   \<and> (\<forall>ret lg p. expand_archives_in_tree F paths parent = Inr (ret, lg) \<longrightarrow> p \<in> set paths \<longrightarrow>
        (\<exists>target. spec_resolve F parent p = Inr target \<and> map_of ret p = Some target))"
proof (intro conjI impI allI)
  assume "\<forall>p\<in>set paths. p \<noteq> [] \<and> (\<exists>t. spec_resolve F parent p = Inr t)"
  then show "\<exists>ret lg. expand_archives_in_tree F paths parent = Inr (ret, lg)"
    by (rule expand_returns)
next
  fix ret lg p
  assume "expand_archives_in_tree F paths parent = Inr (ret, lg)" "p \<in> set paths"
  then show "\<exists>target. spec_resolve F parent p = Inr target \<and> map_of ret p = Some target"
    by (rule expand_resolves)
qed

text \<open>
  The theorem at a file system where \<^verbatim>\<open>/music/a.zip\<close> expands to a container with
  the single directory \<^verbatim>\<open>Album\<close>, for the paths \<^verbatim>\<open>/music/a.zip/cd1\<close> and
  \<^verbatim>\<open>/music/a.zip\<close>.
\<close>

theorem expand_archives_in_tree_resolves_witness:
  "\<exists>ret lg. expand_archives_in_tree example_fs
       [[''/'', ''music'', ''a.zip'', ''cd1''], [''/'', ''music'', ''a.zip'']] [] = Inr (ret, lg)
     \<and> map_of ret [''/'', ''music'', ''a.zip'', ''cd1''] = Some [''tmp'', ''0'', ''Album'', ''cd1'']
     \<and> map_of ret [''/'', ''music'', ''a.zip''] = Some [''tmp'', ''0'', ''Album'']"
proof -
  let ?paths = "[[''/'', ''music'', ''a.zip'', ''cd1''], [''/'', ''music'', ''a.zip'']]"
  have a: "spec_resolve example_fs [] [''/'', ''music'', ''a.zip'', ''cd1''] = Inr [''tmp'', ''0'', ''Album'', ''cd1'']"
    by code_simp
  have b: "spec_resolve example_fs [] [''/'', ''music'', ''a.zip''] = Inr [''tmp'', ''0'', ''Album'']"
    by code_simp
  have "\<forall>p\<in>set ?paths. p \<noteq> [] \<and> (\<exists>t. spec_resolve example_fs [] p = Inr t)"
    using a b by simp
  with expand_archives_in_tree_resolves[of ?paths example_fs "[]"] obtain ret lg where
    r: "expand_archives_in_tree example_fs ?paths [] = Inr (ret, lg)" by blast
  from expand_archives_in_tree_resolves[of ?paths example_fs "[]"] r a
  have "map_of ret [''/'', ''music'', ''a.zip'', ''cd1''] = Some [''tmp'', ''0'', ''Album'', ''cd1'']"
    by fastforce
  moreover from expand_archives_in_tree_resolves[of ?paths example_fs "[]"] r b
  have "map_of ret [''/'', ''music'', ''a.zip''] = Some [''tmp'', ''0'', ''Album'']"
    by fastforce
  ultimately show ?thesis using r by blast
qed

end
